theory Spec2Isabelle
  imports Main "HOL-Library.AList"
begin

section \<open>Strings and collection keys\<close>

text \<open>
  Strings are lists of characters.  \<open>toLowerCase\<close> is modelled on the ASCII letters
  \<open>A\<close> .. \<open>Z\<close>; every other character is left as it is.
\<close>

definition toLowerCase_char :: "char \<Rightarrow> char" where
  "toLowerCase_char c =
     (case map_of (zip ''ABCDEFGHIJKLMNOPQRSTUVWXYZ'' ''abcdefghijklmnopqrstuvwxyz'') c of
        Some l \<Rightarrow> l
      | None \<Rightarrow> c)"

definition toLowerCase :: "string \<Rightarrow> string" where
  "toLowerCase s = map toLowerCase_char s"

text \<open>
  \<open>String.prototype.replace\<close> with a string pattern: only the first occurrence of the
  pattern is replaced.
\<close>

fun js_replace :: "string \<Rightarrow> string \<Rightarrow> string \<Rightarrow> string" where
  "js_replace pat rep [] = (if pat = [] then rep else [])"
| "js_replace pat rep (c # cs) =
     (if take (length pat) (c # cs) = pat then rep @ drop (length pat) (c # cs)
      else c # js_replace pat rep cs)"

text \<open>\<open>getCollectionKey(name)\<close>: \<open>name.toLowerCase().replace(" ", "")\<close>.\<close>

definition getCollectionKey :: "string \<Rightarrow> string" where
  "getCollectionKey name = js_replace '' '' [] (toLowerCase name)"

section \<open>ID reconciliation tables\<close>

text \<open>
  A JavaScript \<open>Map\<close> is an association list in insertion order; \<open>Map.set\<close> is
  \<open>AList.update\<close> (an existing key keeps its place, a new key goes to the end),
  \<open>Map.get\<close> is \<open>map_of\<close>.
\<close>

type_synonym idmap = "(string \<times> string) list"

text \<open>
  \<open>checkMapValuesForId\<close> walks the entries of the collection's table and returns the
  key of the first entry whose value is the new id, or \<open>false\<close> (\<open>None\<close>).  A missing
  table gives an empty walk.
\<close>

fun checkEntries :: "string \<Rightarrow> idmap \<Rightarrow> string option" where
  "checkEntries newId [] = None"
| "checkEntries newId ((key, val) # rest) =
     (if val = newId then Some key else checkEntries newId rest)"

definition checkMapValuesForId ::
  "(string \<times> idmap) list \<Rightarrow> string \<Rightarrow> string \<Rightarrow> string option" where
  "checkMapValuesForId tables newId collectionName =
     (case map_of tables collectionName of
        None \<Rightarrow> None
      | Some oldIdMap \<Rightarrow> checkEntries newId oldIdMap)"

text \<open>
  Truthiness of a value that is a string, \<open>undefined\<close> or \<open>false\<close> (the last two are
  \<open>None\<close>): only a non-empty string is truthy.  The loop condition of
  \<open>getTrueUniqueId\<close> is the truthiness of the result of \<open>checkMapValuesForId\<close>.
\<close>

definition truthy_str :: "string option \<Rightarrow> bool" where
  "truthy_str r = (case r of None \<Rightarrow> False | Some k \<Rightarrow> k \<noteq> [])"

text \<open>
  \<open>getTrueUniqueId\<close>.  The identifiers that successive calls of \<open>ID.unique()\<close> return
  are the list \<open>draws\<close>; the function returns the accepted identifier and the draws
  that are left.  \<open>None\<close> means that the loop is still running when the draws end.
\<close>

fun getTrueUniqueId ::
  "(string \<times> idmap) list \<Rightarrow> string \<Rightarrow> string list \<Rightarrow> (string \<times> string list) option" where
  "getTrueUniqueId tables collectionName [] = None"
| "getTrueUniqueId tables collectionName (newId # draws) =
     (if truthy_str (checkMapValuesForId tables newId collectionName)
      then getTrueUniqueId tables collectionName draws
      else Some (newId, draws))"

definition table_values :: "(string \<times> idmap) list \<Rightarrow> string \<Rightarrow> string set" where
  "table_values tables collectionName =
     (case map_of tables collectionName of None \<Rightarrow> {} | Some m \<Rightarrow> snd ` set m)"

section \<open>JavaScript values and the heap\<close>

text \<open>
  Objects, arrays and dates live in a heap and are referred to by address, so that
  identity, sharing and mutation are those of the program.  Primitive values are
  immediate.  Numbers are the integers that a double holds exactly, up to \<open>2\<^sup>5\<^sup>3 - 1\<close>
  in absolute value; fractions are not modelled.  A date is represented by the string it renders
  to.  The heap is a list of cells; an address is an index into it, and allocation
  appends a cell.
\<close>

type_synonym addr = nat

datatype jsval = JUndefined | JNull | JBool bool | JNum int | JStr string | JRef addr

type_synonym props = "(string \<times> jsval) list"

datatype jsobj = JObject props | JArray "jsval list" | JDate string

type_synonym heap = "jsobj list"

text \<open>
  \<open>TypeError\<close>: a property read or write on \<open>undefined\<close> or \<open>null\<close>, \<open>Object.keys\<close> of
  them, a property write on a primitive (class bodies are strict code), the
  destructuring of a value that is not iterable.
  \<open>RangeError\<close>: the call stack is exhausted.  \<open>MissingOperation\<close>: the error thrown
  when a collection has no import operation.
  Three outcomes mark the edge of the model and are no JavaScript errors:
  \<open>DanglingRef\<close>, an address outside the heap, which no program can hold;
  \<open>Unsupported\<close>, a property write on an array or a date; \<open>OutOfDraws\<close>, the loop of
  \<open>getTrueUniqueId\<close> is still running when the given draws of \<open>ID.unique()\<close> are used
  up.
\<close>

datatype error =
  TypeError | RangeError | MissingOperation | DanglingRef | Unsupported | OutOfDraws

definition heap_get :: "heap \<Rightarrow> addr \<Rightarrow> jsobj option" where
  "heap_get h a = (if a < length h then Some (h ! a) else None)"

definition alloc :: "heap \<Rightarrow> jsobj \<Rightarrow> addr \<times> heap" where
  "alloc h ob = (length h, h @ [ob])"

text \<open>Decimal rendering of a natural number, as used for array index keys.\<close>

fun show_nat :: "nat \<Rightarrow> string" where
  "show_nat n =
     (if n < 10 then [''0123456789'' ! n]
      else show_nat (n div 10) @ [''0123456789'' ! (n mod 10)])"

declare show_nat.simps [simp del]

definition show_int :: "int \<Rightarrow> string" where
  "show_int i = (if i < 0 then CHR ''-'' # show_nat (nat (- i)) else show_nat (nat i))"

definition index_props :: "jsval list \<Rightarrow> props" where
  "index_props xs = zip (map show_nat [0..<length xs]) xs"

definition chars_of :: "string \<Rightarrow> jsval list" where
  "chars_of s = map (\<lambda>c. JStr [c]) s"

text \<open>
  The own enumerable properties of a value, in order: what \<open>{...v}\<close> copies and what
  \<open>Object.keys(v)\<close> lists.
\<close>

definition ownEntries :: "heap \<Rightarrow> jsval \<Rightarrow> error + props" where
  "ownEntries h v =
     (case v of
        JStr s \<Rightarrow> Inr (index_props (chars_of s))
      | JRef a \<Rightarrow>
          (case heap_get h a of
             None \<Rightarrow> Inl DanglingRef
           | Some (JObject ps) \<Rightarrow> Inr ps
           | Some (JArray xs) \<Rightarrow> Inr (index_props xs)
           | Some (JDate d) \<Rightarrow> Inr [])
      | _ \<Rightarrow> Inr [])"

definition objectKeys :: "heap \<Rightarrow> jsval \<Rightarrow> error + string list" where
  "objectKeys h v =
     (case v of
        JUndefined \<Rightarrow> Inl TypeError
      | JNull \<Rightarrow> Inl TypeError
      | _ \<Rightarrow> (case ownEntries h v of Inl e \<Rightarrow> Inl e | Inr ps \<Rightarrow> Inr (map fst ps)))"

definition lookup :: "props \<Rightarrow> string \<Rightarrow> jsval" where
  "lookup ps key = (case map_of ps key of None \<Rightarrow> JUndefined | Some v \<Rightarrow> v)"

text \<open>
  Property reads also see what a value inherits.  The names below are the properties of
  \<open>Object.prototype\<close>, which every value but \<open>null\<close> and \<open>undefined\<close> inherits, and the
  further ones of \<open>Number.prototype\<close>.  Reading such a name where it is no own property
  finds a function, which this value model does not have: the read is \<open>Unsupported\<close>.
  Strings, arrays and dates inherit many more names; on them a read is modelled for
  \<open>length\<close> and for index keys, and is \<open>Unsupported\<close> for every other key.
\<close>

definition object_prototype_names :: "string list" where
  "object_prototype_names =
     [''constructor'', ''hasOwnProperty'', ''isPrototypeOf'', ''propertyIsEnumerable'',
      ''toLocaleString'', ''toString'', ''valueOf'', ''__proto__'', ''__defineGetter__'',
      ''__defineSetter__'', ''__lookupGetter__'', ''__lookupSetter__'']"

definition number_prototype_names :: "string list" where
  "number_prototype_names = [''toExponential'', ''toFixed'', ''toPrecision'']"

definition notOwn :: "string list \<Rightarrow> string \<Rightarrow> error + jsval" where
  "notOwn inherited key = (if key \<in> set inherited then Inl Unsupported else Inr JUndefined)"

text \<open>An index key: a decimal numeral without leading zeros.\<close>

definition is_index :: "string \<Rightarrow> bool" where
  "is_index key =
     (key \<noteq> [] \<and> list_all (\<lambda>c. c \<in> set ''0123456789'') key \<and>
      (key = ''0'' \<or> hd key \<noteq> CHR ''0''))"

definition indexed :: "jsval list \<Rightarrow> string \<Rightarrow> error + jsval" where
  "indexed xs key =
     (if key = ''length'' then Inr (JNum (int (length xs)))
      else (case map_of (index_props xs) key of
              Some v \<Rightarrow> Inr v
            | None \<Rightarrow> if is_index key then Inr JUndefined else Inl Unsupported))"

text \<open>The property read \<open>v[key]\<close>.\<close>

definition getProp :: "heap \<Rightarrow> jsval \<Rightarrow> string \<Rightarrow> error + jsval" where
  "getProp h v key =
     (case v of
        JUndefined \<Rightarrow> Inl TypeError
      | JNull \<Rightarrow> Inl TypeError
      | JBool b \<Rightarrow> notOwn object_prototype_names key
      | JNum n \<Rightarrow> notOwn (object_prototype_names @ number_prototype_names) key
      | JStr s \<Rightarrow> indexed (chars_of s) key
      | JRef a \<Rightarrow>
          (case heap_get h a of
             None \<Rightarrow> Inl DanglingRef
           | Some (JObject ps) \<Rightarrow>
               (case map_of ps key of
                  Some v \<Rightarrow> Inr v
                | None \<Rightarrow> notOwn object_prototype_names key)
           | Some (JArray xs) \<Rightarrow> indexed xs key
           | Some (JDate d) \<Rightarrow> Inl Unsupported))"

text \<open>
  The case distinction that \<open>mergeObjects\<close> makes on a value: an array
  (\<open>Array.isArray\<close>), another non-null object that is not a \<open>Date\<close>, \<open>null\<close> or
  \<open>undefined\<close>, or anything else (booleans, numbers, strings, dates).
\<close>

datatype kind = KArray "jsval list" | KObject | KNullish | KOther | KDangling

definition kindOf :: "heap \<Rightarrow> jsval \<Rightarrow> kind" where
  "kindOf h v =
     (case v of
        JUndefined \<Rightarrow> KNullish
      | JNull \<Rightarrow> KNullish
      | JRef a \<Rightarrow>
          (case heap_get h a of
             None \<Rightarrow> KDangling
           | Some (JArray xs) \<Rightarrow> KArray xs
           | Some (JObject ps) \<Rightarrow> KObject
           | Some (JDate d) \<Rightarrow> KOther)
      | _ \<Rightarrow> KOther)"

text \<open>
  \<open>[...new Set(xs)]\<close>: the elements in the order of their first occurrence.  A \<open>Set\<close>
  compares primitives by value and objects by identity, which is equality of
  \<open>jsval\<close>.
\<close>

definition set_add :: "'a list \<Rightarrow> 'a \<Rightarrow> 'a list" where
  "set_add acc x = (if x \<in> set acc then acc else acc @ [x])"

definition uniq :: "'a list \<Rightarrow> 'a list" where
  "uniq xs = foldl set_add [] xs"

section \<open>Deep merge\<close>

text \<open>
  One round of the \<open>forEach\<close> over \<open>Object.keys(update)\<close>.  \<open>result\<close> is the object
  under construction; \<open>rec\<close> is the recursive call.
\<close>

definition mergeKey ::
  "(heap \<Rightarrow> jsval \<Rightarrow> jsval \<Rightarrow> (error + jsval) \<times> heap) \<Rightarrow> jsval \<Rightarrow> jsval \<Rightarrow> string \<Rightarrow>
   props \<times> heap \<Rightarrow> (error + props) \<times> heap" where
  "mergeKey rec source update key rh =
     (case rh of (result, h) \<Rightarrow>
      (case getProp h source key of
         Inl e \<Rightarrow> (Inl e, h)
       | Inr sourceValue \<Rightarrow>
      (case getProp h update key of
         Inl e \<Rightarrow> (Inl e, h)
       | Inr updateValue \<Rightarrow>
      (case kindOf h updateValue of
         KDangling \<Rightarrow> (Inl DanglingRef, h)
       | KArray us \<Rightarrow>
           (let sourceArray = (case kindOf h sourceValue of KArray xs \<Rightarrow> xs | _ \<Rightarrow> [])
            in case alloc h (JArray (uniq (sourceArray @ us))) of
                 (a, h') \<Rightarrow> (Inr (AList.update key (JRef a) result), h'))
       | KObject \<Rightarrow>
           (case rec h sourceValue updateValue of
              (Inl e, h') \<Rightarrow> (Inl e, h')
            | (Inr v, h') \<Rightarrow> (Inr (AList.update key v result), h'))
       | KOther \<Rightarrow> (Inr (AList.update key updateValue result), h)
       | KNullish \<Rightarrow>
           (if sourceValue = JUndefined then (Inr (AList.update key updateValue result), h)
            else (Inr result, h))))))"

fun forEachKey ::
  "(string \<Rightarrow> props \<times> heap \<Rightarrow> (error + props) \<times> heap) \<Rightarrow> string list \<Rightarrow>
   props \<times> heap \<Rightarrow> (error + props) \<times> heap" where
  "forEachKey f [] (result, h) = (Inr result, h)"
| "forEachKey f (key # keys) (result, h) =
     (case f key (result, h) of
        (Inl e, h') \<Rightarrow> (Inl e, h')
      | (Inr result', h') \<Rightarrow> forEachKey f keys (result', h'))"

text \<open>
  \<open>mergeObjects(source, update)\<close>.  The first argument bounds the depth of the
  recursion, as the call stack does; at depth zero the call fails with \<open>RangeError\<close>.
  The heap is returned in every case, also when an error is thrown.  The object
  \<open>result\<close> is local to the call until it is returned, so it is written to the heap
  when the loop is over.
\<close>

fun mergeObjects :: "nat \<Rightarrow> heap \<Rightarrow> jsval \<Rightarrow> jsval \<Rightarrow> (error + jsval) \<times> heap" where
  "mergeObjects 0 h source update = (Inl RangeError, h)"
| "mergeObjects (Suc depth) h source update =
     (case ownEntries h source of
        Inl e \<Rightarrow> (Inl e, h)
      | Inr result \<Rightarrow>
     (case objectKeys h update of
        Inl e \<Rightarrow> (Inl e, h)
      | Inr keys \<Rightarrow>
     (case forEachKey (mergeKey (\<lambda>h' s u. mergeObjects depth h' s u) source update) keys
             (result, h) of
        (Inl e, h') \<Rightarrow> (Inl e, h')
      | (Inr result', h') \<Rightarrow>
          (case alloc h' (JObject result') of (a, h'') \<Rightarrow> (Inr (JRef a), h'')))))"

section \<open>Specification vocabulary for the deep merge\<close>

text \<open>\<open>extends h h'\<close>: the heap \<open>h'\<close> is \<open>h\<close> with new cells appended; no cell of \<open>h\<close> has changed.\<close>

definition extends :: "heap \<Rightarrow> heap \<Rightarrow> bool" where
  "extends h h' = (take (length h) h' = h)"

definition frame_ok :: "(heap \<Rightarrow> jsval \<Rightarrow> jsval \<Rightarrow> (error + jsval) \<times> heap) \<Rightarrow> bool" where
  "frame_ok rec = (\<forall>h s u r h'. rec h s u = (r, h') \<longrightarrow> extends h h')"

text \<open>The elements of a value when it is an array, and no elements otherwise.\<close>

definition sourceArrayOf :: "heap \<Rightarrow> jsval \<Rightarrow> jsval list" where
  "sourceArrayOf h v = (case kindOf h v of KArray xs \<Rightarrow> xs | _ \<Rightarrow> [])"

text \<open>
  What the loop of \<open>mergeObjects\<close> leaves in the result for a key of the update it has
  processed, and the loop invariant: untouched keys hold the source's value.
\<close>

definition merged_field ::
  "(heap \<Rightarrow> jsval \<Rightarrow> jsval \<Rightarrow> (error + jsval) \<times> heap) \<Rightarrow>
   heap \<Rightarrow> props \<Rightarrow> props \<Rightarrow> heap \<Rightarrow> string \<Rightarrow> jsval \<Rightarrow> bool" where
  "merged_field rec h A B hc key v =
     (case kindOf h (lookup B key) of
        KArray us \<Rightarrow>
          kindOf h (lookup A key) = KDangling \<or>
          (\<exists>c. v = JRef c \<and>
             heap_get hc c = Some (JArray (uniq (sourceArrayOf h (lookup A key) @ us))))
      | KOther \<Rightarrow> v = lookup B key
      | KNullish \<Rightarrow> v = (if lookup A key = JUndefined then lookup B key else lookup A key)
      | KObject \<Rightarrow>
          (\<exists>h1 h2. extends h h1 \<and> extends h2 hc \<and>
             rec h1 (lookup A key) (lookup B key) = (Inr v, h2))
      | KDangling \<Rightarrow> True)"

definition merge_inv ::
  "(heap \<Rightarrow> jsval \<Rightarrow> jsval \<Rightarrow> (error + jsval) \<times> heap) \<Rightarrow>
   heap \<Rightarrow> props \<Rightarrow> props \<Rightarrow> string set \<Rightarrow> props \<Rightarrow> heap \<Rightarrow> bool" where
  "merge_inv rec h A B D result hc =
     (extends h hc \<and>
      (\<forall>key. key \<notin> D \<longrightarrow> lookup result key = lookup A key) \<and>
      (\<forall>key. key \<in> D \<longrightarrow> merged_field rec h A B hc key (lookup result key)))"

text \<open>
  An example: an existing object with a scalar, an array and a nested object, and an
  update that has \<open>null\<close> for the scalar, a new scalar, an overlapping array and a nested
  object; and the heap after merging them.
\<close>

definition merge_heap :: heap where
  "merge_heap =
    [JObject [(''a'', JNum 1), (''tags'', JRef 2), (''n'', JRef 4)],
     JObject [(''a'', JNull), (''b'', JStr ''x''), (''tags'', JRef 3), (''n'', JRef 5)],
     JArray [JStr ''p'', JStr ''q''],
     JArray [JStr ''q'', JStr ''r''],
     JObject [(''z'', JNum 1)],
     JObject [(''z'', JNull), (''y'', JNum 2)]]"

definition merged_heap :: heap where
  "merged_heap = merge_heap @
    [JArray [JStr ''p'', JStr ''q'', JStr ''r''],
     JObject [(''z'', JNum 1), (''y'', JNum 2)],
     JObject [(''a'', JNum 1), (''tags'', JRef 6), (''n'', JRef 7), (''b'', JStr ''x'')]]"

text \<open>
  An existing object \<open>{a: 1}\<close> and an update \<open>{a: 2, n: {y: 2}}\<close>, whose field \<open>n\<close> is an
  object where the existing object has no field.
\<close>

definition nested_heap :: heap where
  "nested_heap =
    [JObject [(''a'', JNum 1)],
     JObject [(''a'', JNum 2), (''n'', JRef 2)],
     JObject [(''y'', JNum 2)]]"

section \<open>Identity deduplication\<close>

text \<open>
  What \<open>prepareUserData\<close> sees of an input record.  The transformation
  (\<open>transformData\<close>) and the validation (\<open>AuthUserCreateSchema.safeParse\<close>) are
  other modules' work; the engine uses their outcome: whether parsing succeeded, the
  parsed \<open>email\<close> and \<open>phone\<close> (\<open>None\<close> for \<open>null\<close> or \<open>undefined\<close>), and the
  source identifier, the string \<open>`${item[primaryKeyField]}`\<close>.
\<close>

record identity_record =
  parsed :: bool
  email :: "string option"
  phone :: "string option"
  sourceId :: string

text \<open>
  The maps of the loader that the engine reads and writes, and the \<open>users\<close> stage of the
  import map, where each entry keeps the record and the \<open>userId\<close> written into its
  final data (\<open>None\<close> when none was written).
\<close>

record dedup_state =
  emailToUserIdMap :: idmap
  phoneToUserIdMap :: idmap
  mergedUserMap :: "(string \<times> string list) list"
  usersStage :: "(identity_record \<times> string option) list"

text \<open>
  \<open>prepareUserData(item, attributeMappings, primaryKeyField, newId)\<close>: the check of the
  email, the check of the phone, the default to \<open>newId\<close>, the entry in the merged user
  map and the entry in the \<open>users\<close> stage.  The result is \<open>None\<close> when the record does
  not parse (the function then returns the transformed item alone), and the
  \<open>existingId\<close> of the returned triple otherwise.
\<close>

definition checkEmail ::
  "dedup_state \<Rightarrow> identity_record \<Rightarrow> string \<Rightarrow> string option \<times> dedup_state" where
  "checkEmail st item newId =
     (case email item of
        None \<Rightarrow> (None, st)
      | Some e \<Rightarrow>
          if e = [] then (None, st)
          else (case map_of (emailToUserIdMap st) e of
                  Some i \<Rightarrow> (Some i, st)
                | None \<Rightarrow>
                    (None, st\<lparr>emailToUserIdMap := AList.update e newId (emailToUserIdMap st)\<rparr>)))"

definition checkPhone ::
  "string option \<Rightarrow> dedup_state \<Rightarrow> identity_record \<Rightarrow> string \<Rightarrow>
   string option \<times> dedup_state" where
  "checkPhone existingId st item newId =
     (case phone item of
        None \<Rightarrow> (existingId, st)
      | Some p \<Rightarrow>
          if p = [] then (existingId, st)
          else (case map_of (phoneToUserIdMap st) p of
                  Some i \<Rightarrow> (Some i, st)
                | None \<Rightarrow>
                    (existingId,
                     st\<lparr>phoneToUserIdMap := AList.update p newId (phoneToUserIdMap st)\<rparr>)))"

definition addMerged :: "string \<Rightarrow> string \<Rightarrow> dedup_state \<Rightarrow> dedup_state" where
  "addMerged existingId source st =
     st\<lparr>mergedUserMap :=
          AList.update existingId
            ((case map_of (mergedUserMap st) existingId of None \<Rightarrow> [] | Some ids \<Rightarrow> ids)
               @ [source])
            (mergedUserMap st)\<rparr>"

text \<open>\<open>if (!existingId) { existingId = newId; }\<close>\<close>

definition defaultToNewId :: "string option \<Rightarrow> string \<Rightarrow> string" where
  "defaultToNewId existingId newId =
     (case existingId of None \<Rightarrow> newId | Some i \<Rightarrow> if i = [] then newId else i)"

definition prepareUserData ::
  "dedup_state \<Rightarrow> identity_record \<Rightarrow> string \<Rightarrow> string option \<times> dedup_state" where
  "prepareUserData st item newId =
     (if \<not> parsed item then (None, st)
      else
        (case checkEmail st item newId of (existingId1, st1) \<Rightarrow>
        (case checkPhone existingId1 st1 item newId of (existingId2, st2) \<Rightarrow>
           let existingId = defaultToNewId existingId2 newId;
               st3 = (if existingId \<noteq> [] then addMerged existingId (sourceId item) st2 else st2)
           in (Some existingId,
               st3\<lparr>usersStage := usersStage st3 @
                      [(item, if existingId \<noteq> [] then Some existingId else None)]\<rparr>))))"

text \<open>
  The calls of \<open>prepareUserData\<close> that the loop of \<open>prepareUserCollectionCreateData\<close>
  makes for a list of records, each with the identifier that \<open>getTrueUniqueId\<close> drew
  for it.  The loop destructures the result as an array, which throws \<open>TypeError\<close> for
  a record that did not parse.  The rest of the loop body does not touch the three maps;
  it may put an earlier version of the \<open>users\<close> stage back into the import map, which
  is not modelled: the stage here keeps every entry.
\<close>

fun dedupAll ::
  "dedup_state \<Rightarrow> (identity_record \<times> string) list \<Rightarrow> (error + unit) \<times> dedup_state" where
  "dedupAll st [] = (Inr (), st)"
| "dedupAll st ((item, newId) # rest) =
     (case prepareUserData st item newId of
        (None, st') \<Rightarrow> (Inl TypeError, st')
      | (Some existingId, st') \<Rightarrow> dedupAll st' rest)"

definition empty_dedup :: dedup_state where
  "empty_dedup = \<lparr>emailToUserIdMap = [], phoneToUserIdMap = [], mergedUserMap = [], usersStage = []\<rparr>"

text \<open>Renaming the target identifiers of a state.\<close>

definition rename_state :: "(string \<Rightarrow> string) \<Rightarrow> dedup_state \<Rightarrow> dedup_state" where
  "rename_state \<rho> st =
     \<lparr>emailToUserIdMap = map (apsnd \<rho>) (emailToUserIdMap st),
      phoneToUserIdMap = map (apsnd \<rho>) (phoneToUserIdMap st),
      mergedUserMap = map (apfst \<rho>) (mergedUserMap st),
      usersStage = map (apsnd (map_option \<rho>)) (usersStage st)\<rparr>"

text \<open>The target identifiers that occur in a state.\<close>

definition state_ids :: "dedup_state \<Rightarrow> string set" where
  "state_ids st =
     snd ` set (emailToUserIdMap st) \<union> snd ` set (phoneToUserIdMap st) \<union>
     fst ` set (mergedUserMap st) \<union> {i. \<exists>r. (r, Some i) \<in> set (usersStage st)}"

text \<open>
  A renaming is admissible on a set of identifiers when it is injective there and maps
  exactly the empty identifier to the empty identifier.
\<close>

definition admissible :: "(string \<Rightarrow> string) \<Rightarrow> string set \<Rightarrow> bool" where
  "admissible \<rho> S = (inj_on \<rho> S \<and> (\<forall>x \<in> S. \<rho> x = [] \<longleftrightarrow> x = []))"

text \<open>The buckets of two different canonical identifiers have no source identifier in common.\<close>

definition buckets_disjoint :: "(string \<times> string list) list \<Rightarrow> bool" where
  "buckets_disjoint M =
     (\<forall>k1 k2 b1 b2. k1 \<noteq> k2 \<and> map_of M k1 = Some b1 \<and> map_of M k2 = Some b2 \<longrightarrow>
        set b1 \<inter> set b2 = {})"

definition bucket_ids :: "(string \<times> string list) list \<Rightarrow> string set" where
  "bucket_ids M = {s. \<exists>k b. map_of M k = Some b \<and> s \<in> set b}"

text \<open>Example records and states.\<close>

definition st_two :: dedup_state where
  "st_two = \<lparr>emailToUserIdMap = [(''a@x.com'', ''u1'')], phoneToUserIdMap = [(''555'', ''u2'')],
     mergedUserMap = [(''u1'', [''1'']), (''u2'', [''2''])], usersStage = []\<rparr>"

definition rec_both :: identity_record where
  "rec_both = \<lparr>parsed = True, email = Some ''a@x.com'', phone = Some ''555'', sourceId = ''3''\<rparr>"

definition rec_a :: identity_record where
  "rec_a = \<lparr>parsed = True, email = Some ''a@x.com'', phone = Some ''111'', sourceId = ''42''\<rparr>"

definition rec_b :: identity_record where
  "rec_b = \<lparr>parsed = True, email = Some ''b@x.com'', phone = Some ''222'', sourceId = ''42''\<rparr>"

definition rec_c :: identity_record where
  "rec_c = \<lparr>parsed = True, email = Some ''a@x.com'', phone = Some ''333'', sourceId = ''43''\<rparr>"

definition st_known :: dedup_state where
  "st_known = \<lparr>emailToUserIdMap = [(''z@x.com'', ''u0'')], phoneToUserIdMap = [],
     mergedUserMap = [], usersStage = []\<rparr>"

definition rename_example :: "string \<Rightarrow> string" where
  "rename_example x = (if x = ''u1'' then ''v1'' else if x = ''u2'' then ''v2'' else x)"

section \<open>Configuration\<close>

text \<open>
  The parts of the configuration that the loader reads.  The type of an import
  definition is \<open>create\<close>, \<open>update\<close> or absent; the attribute mappings are a parameter.
  \<open>fieldToSet\<close> is optional.
\<close>

datatype importType = Create | Update

record idMapping =
  sourceField :: string
  fieldToSet :: "string option"
  targetCollection :: string
  targetField :: string

record 'am importDef =
  defType :: "importType option"
  primaryKeyField :: string
  attributeMappings :: 'am
  idMappings :: "idMapping list option"

record 'am collectionConfig =
  collId :: string
  collName :: string
  importDefs :: "'am importDef list"

record configDatabase =
  dbId :: string
  dbName :: string

record 'am appwriteConfig =
  databases :: "configDatabase list"
  collections :: "'am collectionConfig list option"
  usersCollectionName :: string

section \<open>The order of the passes\<close>

text \<open>
  \<open>start\<close> calls the passes one after the other, awaiting each, so no pass begins before
  the previous one has ended.  The passes are parameters here: each maps the loader's
  state to a result and a new state, and may throw.  A trace records every call of a
  pass together with the way it ended, in the order of the calls, and every update
  definition that \<open>start\<close> skips, with an error in the log, because the import map has no
  stage for its collection.

  \<open>setupMaps\<close> writes into the configuration the id under which a collection exists in
  the database; names, import definitions and the list of collections stay as they
  are, and \<open>config\<close> stands for the configuration with these ids.
\<close>

datatype outcome = Completed | Threw error

datatype passKind = CreatePass | UserCreatePass | UpdatePass

datatype 'am event =
    EvSetupMaps outcome
  | EvGetAllUsers outcome
  | EvPrepare passKind string "'am importDef" outcome
  | EvUpdateSkipped string "'am importDef"
  | EvDealWithMergedUsers outcome
  | EvUpdateOldReferencesForNew outcome
  | EvWriteMaps outcome




text \<open>Skipping an update definition: only the trace changes.\<close>

definition skip ::
  "'am event \<Rightarrow> 's \<times> 'am event list \<Rightarrow> (error + unit) \<times> 's \<times> 'am event list" where
  "skip ev st = (case st of (s, tr) \<Rightarrow> (Inr (), (s, tr @ [ev])))"

text \<open>Sequencing: a thrown error ends the run.\<close>

definition andThen ::
  "('st \<Rightarrow> (error + unit) \<times> 'st) \<Rightarrow> ('st \<Rightarrow> (error + unit) \<times> 'st) \<Rightarrow>
   'st \<Rightarrow> (error + unit) \<times> 'st" where
  "andThen f g st = (case f st of (Inl e, st') \<Rightarrow> (Inl e, st') | (Inr u, st') \<Rightarrow> g st')"

fun forEachE :: "('a \<Rightarrow> 'st \<Rightarrow> (error + unit) \<times> 'st) \<Rightarrow> 'a list \<Rightarrow> 'st \<Rightarrow> (error + unit) \<times> 'st" where
  "forEachE f [] st = (Inr (), st)"
| "forEachE f (x # xs) st = andThen (f x) (forEachE f xs) st"







text \<open>
  The events of the preparation loop; those that settle an import definition (its pass
  has completed, or it has been skipped); and the definition an event is about.
\<close>

fun is_prepare :: "'am event \<Rightarrow> bool" where
  "is_prepare (EvPrepare k c d out) = True"
| "is_prepare (EvUpdateSkipped c d) = True"
| "is_prepare _ = False"

fun settled :: "'am event \<Rightarrow> bool" where
  "settled (EvPrepare k c d out) = (out = Completed)"
| "settled (EvUpdateSkipped c d) = True"
| "settled _ = False"

fun prepared :: "'am event \<Rightarrow> (string \<times> 'am importDef) list" where
  "prepared (EvPrepare k c d out) = [(c, d)]"
| "prepared (EvUpdateSkipped c d) = [(c, d)]"
| "prepared _ = []"

text \<open>
  A step that extends the trace by events of which \<open>P\<close> holds, given the way the step
  ended.
\<close>

definition emits ::
  "('s \<times> 'am event list \<Rightarrow> (error + unit) \<times> 's \<times> 'am event list) \<Rightarrow>
   (error + unit \<Rightarrow> 'am event list \<Rightarrow> bool) \<Rightarrow> bool" where
  "emits f P =
     (\<forall>s tr r s' tr'. f (s, tr) = (r, (s', tr')) \<longrightarrow> (\<exists>new. tr' = tr @ new \<and> P r new))"

text \<open>
  A step that only makes preparation passes: when it completes, its events settle the
  definitions of its plan, in order.
\<close>

definition prep_events ::
  "(string \<times> 'am importDef) list \<Rightarrow> error + unit \<Rightarrow> 'am event list \<Rightarrow> bool" where
  "prep_events plan r new =
     (list_all is_prepare new \<and>
      (r = Inr () \<longrightarrow> list_all settled new \<and> concat (map prepared new) = plan))"














section \<open>Conversions and property writes\<close>

text \<open>\<open>Array.prototype.join(",")\<close> on strings.\<close>

fun join_strings :: "string list \<Rightarrow> string" where
  "join_strings [] = []"
| "join_strings [s] = s"
| "join_strings (s # t # ss) = s @ '','' @ join_strings (t # ss)"

text \<open>Evaluation from left to right; the first error is thrown.\<close>

fun sequenceE :: "(error + 'a) list \<Rightarrow> error + 'a list" where
  "sequenceE [] = Inr []"
| "sequenceE (x # xs) =
     (case x of
        Inl e \<Rightarrow> Inl e
      | Inr v \<Rightarrow> (case sequenceE xs of Inl e \<Rightarrow> Inl e | Inr vs \<Rightarrow> Inr (v # vs)))"

text \<open>
  The string that a template literal \<open>`${v}`\<close> produces.  A plain object renders as
  \<open>[object Object]\<close>; an array renders its elements joined by commas, \<open>null\<close> and
  \<open>undefined\<close> elements as the empty string, and an array that is already being joined
  (a cycle) as the empty string.  An integer that a double holds exactly renders as its
  decimal numeral; a larger number is \<open>Unsupported\<close>.  The conversion of an object is a
  call: the first argument bounds the depth of the calls.
\<close>

fun js_toString :: "nat \<Rightarrow> addr list \<Rightarrow> heap \<Rightarrow> jsval \<Rightarrow> error + string" where
  "js_toString depth joining h JUndefined = Inr ''undefined''"
| "js_toString depth joining h JNull = Inr ''null''"
| "js_toString depth joining h (JBool b) = Inr (if b then ''true'' else ''false'')"
| "js_toString depth joining h (JNum n) =
     (if \<bar>n\<bar> \<le> 9007199254740991 then Inr (show_int n) else Inl Unsupported)"
| "js_toString depth joining h (JStr s) = Inr s"
| "js_toString 0 joining h (JRef a) = Inl RangeError"
| "js_toString (Suc depth) joining h (JRef a) =
     (case heap_get h a of
        None \<Rightarrow> Inl DanglingRef
      | Some (JObject ps) \<Rightarrow> Inr ''[object Object]''
      | Some (JDate d) \<Rightarrow> Inr d
      | Some (JArray xs) \<Rightarrow>
          if a \<in> set joining then Inr []
          else (case sequenceE
                       (map (\<lambda>x. if x = JUndefined \<or> x = JNull then Inr []
                                  else js_toString depth (a # joining) h x) xs) of
                  Inl e \<Rightarrow> Inl e
                | Inr ss \<Rightarrow> Inr (join_strings ss)))"

text \<open>Truthiness of a value.\<close>

fun truthy :: "jsval \<Rightarrow> bool" where
  "truthy JUndefined = False"
| "truthy JNull = False"
| "truthy (JBool b) = b"
| "truthy (JNum n) = (n \<noteq> 0)"
| "truthy (JStr s) = (s \<noteq> [])"
| "truthy (JRef a) = True"

text \<open>
  \<open>_.isEmpty\<close> of lodash, as its documentation describes it: \<open>null\<close>, \<open>undefined\<close>,
  booleans and numbers are empty; a string or an array is empty when its length is
  zero; an object is empty when it has no own enumerable property.
\<close>

definition lodash_isEmpty :: "heap \<Rightarrow> jsval \<Rightarrow> error + bool" where
  "lodash_isEmpty h v =
     (case v of
        JStr s \<Rightarrow> Inr (s = [])
      | JRef a \<Rightarrow>
          (case heap_get h a of
             None \<Rightarrow> Inl DanglingRef
           | Some (JObject ps) \<Rightarrow> Inr (ps = [])
           | Some (JArray xs) \<Rightarrow> Inr (xs = [])
           | Some (JDate d) \<Rightarrow> Inr True)
      | _ \<Rightarrow> Inr True)"

text \<open>The property write \<open>v[key] = x\<close> in strict code.\<close>

definition setProp :: "heap \<Rightarrow> jsval \<Rightarrow> string \<Rightarrow> jsval \<Rightarrow> error + heap" where
  "setProp h v key x =
     (case v of
        JRef a \<Rightarrow>
          (case heap_get h a of
             None \<Rightarrow> Inl DanglingRef
           | Some (JObject ps) \<Rightarrow> Inr (h[a := JObject (AList.update key x ps)])
           | Some (JArray xs) \<Rightarrow> Inl Unsupported
           | Some (JDate d) \<Rightarrow> Inl Unsupported)
      | _ \<Rightarrow> Inl TypeError)"

section \<open>The loader's state\<close>

text \<open>
  A staged record; \<open>context\<close> is \<open>undefined\<close> and the import definition absent for the
  records of the \<open>users\<close> stage.  A stage: the collection's configuration, when there is
  one, and the records.
\<close>

record 'am importRecord =
  rawData :: jsval
  itemContext :: jsval
  finalData :: jsval
  recordDef :: "'am importDef option"

record 'am stage =
  stageCollection :: "'am collectionConfig option"
  stageData :: "'am importRecord list"

text \<open>What \<open>logger.error\<close> is called with, by call site.\<close>

datatype logEntry =
    DuplicatePrimaryKey string string
  | NoDataForCollection string
  | NoDataFound string string string

text \<open>
  The import map, the ID reconciliation tables, the import operations, the heap, the
  identifiers that \<open>ID.unique()\<close> will return, and the error log.
\<close>

record 'am loader =
  importMap :: "(string \<times> 'am stage) list"
  oldIdToNewIdPerCollectionMap :: "(string \<times> idmap) list"
  collectionImportOperations :: "(string \<times> string) list"
  store :: heap
  draws :: "string list"
  errorLog :: "logEntry list"

definition tableOf :: "'am loader \<Rightarrow> string \<Rightarrow> idmap" where
  "tableOf st key = (case map_of (oldIdToNewIdPerCollectionMap st) key of None \<Rightarrow> [] | Some m \<Rightarrow> m)"

section \<open>The create pass\<close>

text \<open>
  The functions of other modules that \<open>prepareCreateData\<close> calls: the transformation of
  a raw item, which returns a value and may allocate; the validation of the transformed
  item; and what \<open>getAttributeMappingsWithActions\<close> computes with the template resolver
  of the import actions: the attribute mappings with their post-import actions, which
  are only stored in the staged record.  Each of them may throw.
\<close>

record 'am externals =
  transformData :: "heap \<Rightarrow> jsval \<Rightarrow> 'am \<Rightarrow> (error + jsval) \<times> heap"
  validateItem :: "heap \<Rightarrow> jsval \<Rightarrow> 'am \<Rightarrow> jsval \<Rightarrow> error + bool"
  getAttributeMappingsWithActions :: "heap \<Rightarrow> 'am \<Rightarrow> jsval \<Rightarrow> jsval \<Rightarrow> error + 'am"

text \<open>
  \<open>{ ...base, ...extra }\<close> on property lists: an entry of \<open>extra\<close> overwrites an entry of
  the same key in place, and is appended when there is none.
\<close>

definition spreadOnto :: "props \<Rightarrow> props \<Rightarrow> props" where
  "spreadOnto base extra = foldl (\<lambda>acc kv. AList.update (fst kv) (snd kv) acc) base extra"

text \<open>\<open>createContext(db, collection, item, docId)\<close>.\<close>

definition createContext ::
  "heap \<Rightarrow> configDatabase \<Rightarrow> 'am collectionConfig \<Rightarrow> jsval \<Rightarrow> string \<Rightarrow> (error + jsval) \<times> heap" where
  "createContext h db collection item docId =
     (case ownEntries h item of
        Inl e \<Rightarrow> (Inl e, h)
      | Inr itemProps \<Rightarrow>
          (case alloc h (JObject []) of (createdDoc, h1) \<Rightarrow>
          (case alloc h1 (JObject (spreadOnto itemProps
                  [(''dbId'', JStr (dbId db)), (''dbName'', JStr (dbName db)),
                   (''collId'', JStr (collId collection)), (''collName'', JStr (collName collection)),
                   (''docId'', JStr docId), (''createdDoc'', JRef createdDoc)])) of
             (ctx, h2) \<Rightarrow> (Inr (JRef ctx), h2))))"

text \<open>
  The loop body of \<open>prepareCreateData\<close> from the check of the primary key on: the
  duplicate check and the entry in the collection's table, the merge of the transformed
  data into the context, the validation, and the staging of the record.  \<open>continue\<close> is
  the result \<open>Inr ()\<close>.
\<close>

definition registerAndStage ::
  "'am externals \<Rightarrow> nat \<Rightarrow> 'am collectionConfig \<Rightarrow> 'am importDef \<Rightarrow> jsval \<Rightarrow> string \<Rightarrow>
   'am stage option \<Rightarrow> jsval \<Rightarrow> jsval \<Rightarrow> 'am loader \<Rightarrow> (error + unit) \<times> 'am loader" where
  "registerAndStage ext depth collection importDef item itemIdNew currentData context0
       transformedData st =
     (let key = getCollectionKey (collName collection);
          registered =
            (if primaryKeyField importDef \<noteq> [] then
               (case getProp (store st) item (primaryKeyField importDef) of
                  Inl e \<Rightarrow> Inl (Inl e, st)
                | Inr oldId \<Rightarrow>
                    (case js_toString depth [] (store st) oldId of
                       Inl e \<Rightarrow> Inl (Inl e, st)
                     | Inr oldKey \<Rightarrow>
                         if map_of (tableOf st key) oldKey \<noteq> None
                         then Inl (Inr (),
                                st\<lparr>errorLog := errorLog st @
                                     [DuplicatePrimaryKey (collName collection) oldKey]\<rparr>)
                         else Inr (st\<lparr>oldIdToNewIdPerCollectionMap :=
                                 AList.update key (AList.update oldKey itemIdNew (tableOf st key))
                                   (oldIdToNewIdPerCollectionMap st)\<rparr>)))
             else Inr st)
      in case registered of
           Inl done \<Rightarrow> done
         | Inr st1 \<Rightarrow>
             (case ownEntries (store st1) context0 of
                Inl e \<Rightarrow> (Inl e, st1)
              | Inr contextProps \<Rightarrow>
             (case ownEntries (store st1) transformedData of
                Inl e \<Rightarrow> (Inl e, st1)
              | Inr transformedProps \<Rightarrow>
             (case alloc (store st1) (JObject (spreadOnto contextProps transformedProps)) of
                (ctx, h) \<Rightarrow>
             (let st2 = st1\<lparr>store := h\<rparr>; contextNew = JRef ctx
              in case validateItem ext h transformedData (attributeMappings importDef) contextNew of
                   Inl e \<Rightarrow> (Inl e, st2)
                 | Inr isValid \<Rightarrow>
                     if \<not> isValid then (Inr (), st2)
                     else
                       (case getAttributeMappingsWithActions ext h
                               (attributeMappings importDef) contextNew transformedData of
                          Inl e \<Rightarrow> (Inl e, st2)
                        | Inr mappingsWithActions \<Rightarrow>
                            (let newImportDef =
                                   importDef\<lparr>attributeMappings := mappingsWithActions\<rparr>
                             in case currentData of
                                  Some cd \<Rightarrow>
                                    (Inr (),
                                     st2\<lparr>importMap :=
                                           AList.update key
                                             (cd\<lparr>stageData := stageData cd @
                                                   [\<lparr>rawData = item, itemContext = contextNew,
                                                     finalData = transformedData,
                                                     recordDef = Some newImportDef\<rparr>]\<rparr>)
                                             (importMap st2)\<rparr>)
                                | None \<Rightarrow>
                                    (Inr (),
                                     st2\<lparr>errorLog := errorLog st2 @
                                           [NoDataForCollection (collName collection)]\<rparr>))))))))"

text \<open>The loop body of \<open>prepareCreateData\<close>.\<close>

definition createItem ::
  "'am externals \<Rightarrow> nat \<Rightarrow> configDatabase \<Rightarrow> 'am collectionConfig \<Rightarrow> 'am importDef \<Rightarrow>
   jsval \<Rightarrow> 'am loader \<Rightarrow> (error + unit) \<times> 'am loader" where
  "createItem ext depth db collection importDef item st =
     (let key = getCollectionKey (collName collection)
      in case getTrueUniqueId (oldIdToNewIdPerCollectionMap st) key (draws st) of
           None \<Rightarrow> (Inl OutOfDraws, st)
         | Some (itemIdNew, rest) \<Rightarrow>
             (let st1 = st\<lparr>draws := rest\<rparr>;
                  currentData = map_of (importMap st1) key
              in case createContext (store st1) db collection item itemIdNew of
                   (Inl e, h) \<Rightarrow> (Inl e, st1\<lparr>store := h\<rparr>)
                 | (Inr context0, h) \<Rightarrow>
                     (case transformData ext h item (attributeMappings importDef) of
                        (Inl e, h') \<Rightarrow> (Inl e, st1\<lparr>store := h'\<rparr>)
                      | (Inr transformedData, h') \<Rightarrow>
                          registerAndStage ext depth collection importDef item itemIdNew
                            currentData context0 transformedData (st1\<lparr>store := h'\<rparr>))))"

text \<open>
  \<open>prepareCreateData(db, collection, importDef)\<close> on the raw data that \<open>loadData\<close> read:
  the check of the import operation, the collection's table (created when there is none),
  and the loop over the items.  The call of \<open>updateOperation\<close> goes to the store's client
  and is left out.
\<close>

definition prepareCreateData ::
  "'am externals \<Rightarrow> nat \<Rightarrow> configDatabase \<Rightarrow> 'am collectionConfig \<Rightarrow> 'am importDef \<Rightarrow>
   jsval list \<Rightarrow> 'am loader \<Rightarrow> (error + unit) \<times> 'am loader" where
  "prepareCreateData ext depth db collection importDef rawItems st =
     (let key = getCollectionKey (collName collection)
      in if \<not> truthy_str (map_of (collectionImportOperations st) key)
         then (Inl MissingOperation, st)
         else forEachE (createItem ext depth db collection importDef) rawItems
                (st\<lparr>oldIdToNewIdPerCollectionMap :=
                      (case map_of (oldIdToNewIdPerCollectionMap st) key of
                         Some m \<Rightarrow> oldIdToNewIdPerCollectionMap st
                       | None \<Rightarrow> AList.update key [] (oldIdToNewIdPerCollectionMap st))\<rparr>))"

text \<open>
  Scenario 2: two raw items with the primary key \<open>42\<close>, once as a string and once as a
  number; a transformation that returns the item as it is; a validation that accepts.
\<close>

definition plain_externals :: "unit externals" where
  "plain_externals =
     \<lparr>transformData = (\<lambda>h item am. (Inr item, h)),
      validateItem = (\<lambda>h t am c. Inr True),
      getAttributeMappingsWithActions = (\<lambda>h am c t. Inr am)\<rparr>"

definition items_def :: "unit importDef" where
  "items_def = \<lparr>defType = None, primaryKeyField = ''id'', attributeMappings = (), idMappings = None\<rparr>"

definition items_collection :: "unit collectionConfig" where
  "items_collection = \<lparr>collId = ''c1'', collName = ''Items'', importDefs = [items_def]\<rparr>"

definition main_db :: configDatabase where
  "main_db = \<lparr>dbId = ''main'', dbName = ''Main''\<rparr>"

definition items_start :: "unit loader" where
  "items_start =
     \<lparr>importMap = [(''items'', \<lparr>stageCollection = None, stageData = []\<rparr>)],
      oldIdToNewIdPerCollectionMap = [],
      collectionImportOperations = [(''items'', ''op1'')],
      store = [JObject [(''id'', JStr ''42''), (''n'', JNum 1)],
               JObject [(''id'', JNum 42), (''n'', JNum 2)]],
      draws = [''id1'', ''id2'', ''id3''],
      errorLog = []\<rparr>"

definition items_context :: "string \<Rightarrow> jsval \<Rightarrow> int \<Rightarrow> addr \<Rightarrow> jsobj" where
  "items_context docId ident n createdDoc =
     JObject [(''id'', ident), (''n'', JNum n), (''dbId'', JStr ''main''),
              (''dbName'', JStr ''Main''), (''collId'', JStr ''c1''),
              (''collName'', JStr ''Items''), (''docId'', JStr docId),
              (''createdDoc'', JRef createdDoc)]"

definition items_after_first :: "unit loader" where
  "items_after_first =
     \<lparr>importMap =
        [(''items'',
          \<lparr>stageCollection = None,
           stageData = [\<lparr>rawData = JRef 0, itemContext = JRef 4, finalData = JRef 0,
                         recordDef = Some items_def\<rparr>]\<rparr>)],
      oldIdToNewIdPerCollectionMap = [(''items'', [(''42'', ''id1'')])],
      collectionImportOperations = [(''items'', ''op1'')],
      store = [JObject [(''id'', JStr ''42''), (''n'', JNum 1)],
               JObject [(''id'', JNum 42), (''n'', JNum 2)],
               JObject [],
               items_context ''id1'' (JStr ''42'') 1 2,
               items_context ''id1'' (JStr ''42'') 1 2],
      draws = [''id2'', ''id3''],
      errorLog = []\<rparr>"

definition items_after_second :: "unit loader" where
  "items_after_second =
     items_after_first
       \<lparr>store := store items_after_first @ [JObject [], items_context ''id2'' (JNum 42) 2 5],
        draws := [''id3''],
        errorLog := [DuplicatePrimaryKey ''Items'' ''42'']\<rparr>"

section \<open>The general lookup\<close>

text \<open>\<open>idMapping.fieldToSet || idMapping.sourceField\<close>\<close>

definition fieldToSetKey :: "idMapping \<Rightarrow> string" where
  "fieldToSetKey m =
     (case fieldToSet m of None \<Rightarrow> sourceField m | Some f \<Rightarrow> if f = [] then sourceField m else f)"

text \<open>\<open>Array.prototype.filter\<close> with a predicate that may throw.\<close>

fun filterE :: "('a \<Rightarrow> error + bool) \<Rightarrow> 'a list \<Rightarrow> error + 'a list" where
  "filterE p [] = Inr []"
| "filterE p (x # xs) =
     (case p x of
        Inl e \<Rightarrow> Inl e
      | Inr b \<Rightarrow>
          (case filterE p xs of
             Inl e \<Rightarrow> Inl e
           | Inr ys \<Rightarrow> Inr (if b then x # ys else ys)))"

text \<open>
  The predicate of the filter over the target's records:
  \<open>`${data.context[idMapping.targetField]}` === `${valueToMatch}`\<close>.
\<close>

definition isMatch ::
  "nat \<Rightarrow> heap \<Rightarrow> idMapping \<Rightarrow> jsval \<Rightarrow> 'am importRecord \<Rightarrow> error + bool" where
  "isMatch depth h m valueToMatch dat =
     (case getProp h (itemContext dat) (targetField m) of
        Inl e \<Rightarrow> Inl e
      | Inr targetValue \<Rightarrow>
          (case js_toString depth [] h targetValue of
             Inl e \<Rightarrow> Inl e
           | Inr l \<Rightarrow>
               (case js_toString depth [] h valueToMatch of
                  Inl e \<Rightarrow> Inl e
                | Inr r \<Rightarrow> Inr (l = r))))"

text \<open>
  The body of the innermost loop of \<open>updateOldReferencesForNew\<close>, for one staged record
  and one id mapping.  \<open>continue\<close> is the result \<open>Inr ()\<close>.  The calls of
  \<open>console.log\<close> and \<open>logger.warn\<close> are left out; the call of \<open>logger.error\<close> is the
  entry \<open>NoDataFound\<close>.
\<close>

definition resolveIdMapping ::
  "nat \<Rightarrow> 'am importRecord \<Rightarrow> idMapping \<Rightarrow> 'am loader \<Rightarrow> (error + unit) \<times> 'am loader" where
  "resolveIdMapping depth dataItem m st =
     (let h = store st;
          targetCollectionKey = getCollectionKey (targetCollection m)
      in case getProp h (itemContext dataItem) (sourceField m) of
           Inl e \<Rightarrow> (Inl e, st)
         | Inr valueToMatch \<Rightarrow>
             if \<not> truthy valueToMatch then (Inr (), st)
             else
               (case lodash_isEmpty h valueToMatch of
                  Inl e \<Rightarrow> (Inl e, st)
                | Inr True \<Rightarrow> (Inr (), st)
                | Inr False \<Rightarrow>
                    (case map_of (importMap st) targetCollectionKey of
                       None \<Rightarrow> (Inr (), st)
                     | Some targetCollectionData \<Rightarrow>
                         (case filterE (isMatch depth h m valueToMatch)
                                 (stageData targetCollectionData) of
                            Inl e \<Rightarrow> (Inl e, st)
                          | Inr [] \<Rightarrow>
                              (case js_toString depth [] h valueToMatch of
                                 Inl e \<Rightarrow> (Inl e, st)
                               | Inr shown \<Rightarrow>
                                   (Inr (),
                                    st\<lparr>errorLog := errorLog st @
                                         [NoDataFound targetCollectionKey shown (fieldToSetKey m)]\<rparr>))
                          | Inr (first # others) \<Rightarrow>
                              (case getProp h (finalData dataItem) (fieldToSetKey m) of
                                 Inl e \<Rightarrow> (Inl e, st)
                               | Inr current \<Rightarrow>
                                   (case kindOf h current of
                                      KArray xs \<Rightarrow>
                                        (case alloc h (JArray (map finalData (first # others))) of
                                           (a, h1) \<Rightarrow>
                                             (case setProp h1 (finalData dataItem) (fieldToSetKey m)
                                                     (JRef a) of
                                                Inl e \<Rightarrow> (Inl e, st\<lparr>store := h1\<rparr>)
                                              | Inr h2 \<Rightarrow> (Inr (), st\<lparr>store := h2\<rparr>)))
                                    | _ \<Rightarrow>
                                        (case setProp h (finalData dataItem) (fieldToSetKey m)
                                                (finalData first) of
                                           Inl e \<Rightarrow> (Inl e, st)
                                         | Inr h2 \<Rightarrow> (Inr (), st\<lparr>store := h2\<rparr>))))))))"

text \<open>
  \<open>updateOldReferencesForNew\<close>: every configured collection that has a stage, every
  record of the stage, every import definition of the collection, every id mapping.
\<close>

definition updateOldReferencesForNew ::
  "nat \<Rightarrow> 'am appwriteConfig \<Rightarrow> 'am loader \<Rightarrow> (error + unit) \<times> 'am loader" where
  "updateOldReferencesForNew depth config =
     (case collections config of
        None \<Rightarrow> (\<lambda>st. (Inr (), st))
      | Some colls \<Rightarrow>
          forEachE
            (\<lambda>collectionConfig st.
               case map_of (importMap st) (getCollectionKey (collName collectionConfig)) of
                 None \<Rightarrow> (Inr (), st)
               | Some collectionData \<Rightarrow>
                   forEachE
                     (\<lambda>dataItem.
                        forEachE
                          (\<lambda>importDef.
                             case idMappings importDef of
                               None \<Rightarrow> (\<lambda>st. (Inr (), st))
                             | Some ms \<Rightarrow> forEachE (resolveIdMapping depth dataItem) ms)
                          (importDefs collectionConfig))
                     (stageData collectionData) st)
            colls)"

text \<open>
  An example: collection \<open>A\<close> has one staged record with \<open>origId\<close> 7 and collection \<open>B\<close>
  one staged record whose field \<open>aRef\<close> is 7, to be matched against \<open>origId\<close>.  The
  value \<open>seven\<close> is the string \<open>"7"\<close> or the number \<open>7\<close>.  Cells 0 and 1 are the final data
  and the context of the record of \<open>A\<close>, cells 2 and 3 those of the record of \<open>B\<close>.
\<close>

definition ref_mapping :: idMapping where
  "ref_mapping =
     \<lparr>sourceField = ''aRef'', fieldToSet = None, targetCollection = ''A'', targetField = ''origId''\<rparr>"

definition ref_config :: "unit appwriteConfig" where
  "ref_config =
     \<lparr>databases = [\<lparr>dbId = ''main'', dbName = ''Main''\<rparr>],
      collections = Some
        [\<lparr>collId = ''ca'', collName = ''A'', importDefs = []\<rparr>,
         \<lparr>collId = ''cb'', collName = ''B'',
          importDefs = [\<lparr>defType = None, primaryKeyField = ''id'', attributeMappings = (),
                         idMappings = Some [ref_mapping]\<rparr>]\<rparr>],
      usersCollectionName = ''Members''\<rparr>"

definition record_a :: "unit importRecord" where
  "record_a = \<lparr>rawData = JRef 0, itemContext = JRef 1, finalData = JRef 0, recordDef = None\<rparr>"

definition record_b :: "unit importRecord" where
  "record_b = \<lparr>rawData = JRef 2, itemContext = JRef 3, finalData = JRef 2, recordDef = None\<rparr>"

definition ref_state :: "jsval \<Rightarrow> unit loader" where
  "ref_state seven =
     \<lparr>importMap =
        [(''a'', \<lparr>stageCollection = None, stageData = [record_a]\<rparr>),
         (''b'', \<lparr>stageCollection = None, stageData = [record_b]\<rparr>)],
      oldIdToNewIdPerCollectionMap = [],
      collectionImportOperations = [],
      store = [JObject [(''origId'', seven), (''name'', JStr ''x'')],
               JObject [(''origId'', seven), (''docId'', JStr ''abc'')],
               JObject [(''aRef'', seven)],
               JObject [(''aRef'', seven), (''docId'', JStr ''def'')]],
      draws = [],
      errorLog = []\<rparr>"

section \<open>Properties of collection keys\<close>

lemma toLowerCase_char_simps:
  "toLowerCase_char (CHR ''A'') = CHR ''a''"
  "toLowerCase_char (CHR ''a'') = CHR ''a''"
  "toLowerCase_char (CHR ''b'') = CHR ''b''"
  "toLowerCase_char (CHR ''c'') = CHR ''c''"
  "toLowerCase_char (CHR '' '') = CHR '' ''"
  by (simp_all add: toLowerCase_char_def)

text \<open>
  C8.  Collection-key normalisation lower-cases the name but removes only the first
  space: the display names \<open>a b c\<close> and \<open>abc\<close> differ only in whitespace and get
  different keys, while names with at most one space are normalised as described.
\<close>

theorem getCollectionKey_keeps_second_space:
  "getCollectionKey ''a b c'' = ''ab c'' \<and> getCollectionKey ''abc'' = ''abc'' \<and>
   getCollectionKey ''A bc'' = ''abc'' \<and>
   getCollectionKey ''a b c'' \<noteq> getCollectionKey ''abc''"
  by (simp add: getCollectionKey_def toLowerCase_def toLowerCase_char_simps)

section \<open>Properties of identifier generation\<close>

lemma checkEntries_None: "checkEntries newId m = None \<longleftrightarrow> newId \<notin> snd ` set m"
  by (induction m) (auto split: if_splits)

lemma checkEntries_Some_key: "checkEntries newId m = Some k \<Longrightarrow> (k, newId) \<in> set m"
  by (induction m) (auto split: if_splits)

lemma getTrueUniqueId_falsy:
  "getTrueUniqueId tables c ds = Some (newId, rest) \<Longrightarrow>
   \<not> truthy_str (checkMapValuesForId tables newId c)"
  by (induction ds) (auto split: if_splits)

text \<open>
  When no key of the collection's table is the empty string, the identifier that
  \<open>getTrueUniqueId\<close> returns is not a value of the table.
\<close>

lemma getTrueUniqueId_unique_if_no_empty_key:
  assumes "getTrueUniqueId tables c ds = Some (newId, rest)"
    and "\<And>m. map_of tables c = Some m \<Longrightarrow> [] \<notin> fst ` set m"
  shows "newId \<notin> table_values tables c"
proof (cases "map_of tables c")
  case None
  then show ?thesis by (simp add: table_values_def)
next
  case (Some m)
  from assms(1) have f: "\<not> truthy_str (checkEntries newId m)"
    using getTrueUniqueId_falsy [OF assms(1)] Some by (simp add: checkMapValuesForId_def)
  show ?thesis
  proof (cases "checkEntries newId m")
    case None
    then show ?thesis using Some by (simp add: table_values_def checkEntries_None)
  next
    case (Some k)
    with f have "k = []" by (simp add: truthy_str_def)
    moreover from Some have "(k, newId) \<in> set m" by (rule checkEntries_Some_key)
    ultimately have "[] \<in> fst ` set m" by force
    with assms(2) [OF \<open>map_of tables c = Some m\<close>] show ?thesis by simp
  qed
qed

text \<open>
  C1.  A table entry whose source identifier is the empty string hides its target
  identifier from the collision check: with the table \<open>"" \<mapsto> X\<close> and \<open>ID.unique()\<close>
  drawing \<open>X\<close>, \<open>getTrueUniqueId\<close> returns \<open>X\<close>, a value of the table.
\<close>

theorem getTrueUniqueId_returns_assigned_id:
  "getTrueUniqueId [(''items'', [('''', ''X'')])] ''items'' [''X'', ''Y''] = Some (''X'', [''Y'']) \<and>
   ''X'' \<in> table_values [(''items'', [('''', ''X'')])] ''items''"
  by (simp add: checkMapValuesForId_def truthy_str_def table_values_def)

section \<open>Properties of the deep merge\<close>


lemma extends_refl: "extends h h" by (simp add: extends_def)
lemma extends_append: "extends h (h @ ext)" by (simp add: extends_def)
lemma extendsE: "extends h h' \<Longrightarrow> \<exists>ext. h' = h @ ext"
  unfolding extends_def by (metis append_take_drop_id)
lemma extends_trans:
  assumes "extends h h'" "extends h' h''" shows "extends h h''"
proof -
  from assms obtain e1 e2 where "h' = h @ e1" "h'' = h' @ e2" by (blast dest: extendsE)
  then show ?thesis by (simp add: extends_def)
qed
lemma extends_length: "extends h h' \<Longrightarrow> length h \<le> length h'"
  by (auto dest!: extendsE)
lemma extends_heap_get: "extends h h' \<Longrightarrow> heap_get h a = Some ob \<Longrightarrow> heap_get h' a = Some ob"
  by (auto dest!: extendsE simp: heap_get_def nth_append split: if_splits)

lemma mergeKey_extends:
  assumes "frame_ok rec" "mergeKey rec source update key (result, h) = (r, h')"
  shows "extends h h'"
  using assms
  by (auto simp: mergeKey_def alloc_def Let_def frame_ok_def extends_refl extends_append
      split: sum.splits kind.splits prod.splits if_splits)

lemma forEachKey_extends:
  assumes "\<And>key result h r h'. f key (result, h) = (r, h') \<Longrightarrow> extends h h'"
  shows "forEachKey f keys (result, h) = (r, h') \<Longrightarrow> extends h h'"
proof (induction keys arbitrary: result h)
  case Nil
  then show ?case by (simp add: extends_refl)
next
  case (Cons key keys)
  show ?case
  proof (cases "f key (result, h)")
    case (Pair r1 h1)
    have e1: "extends h h1" using assms Pair by blast
    show ?thesis
    proof (cases r1)
      case (Inl e)
      with Cons.prems Pair e1 show ?thesis by simp
    next
      case (Inr res1)
      with Cons.prems Pair have "forEachKey f keys (res1, h1) = (r, h')" by simp
      from Cons.IH [OF this] e1 show ?thesis by (rule extends_trans [rotated])
    qed
  qed
qed

lemma mergeObjects_frame_ok: "frame_ok (mergeObjects depth)"
proof (induction depth)
  case 0
  show ?case by (simp add: frame_ok_def extends_refl)
next
  case (Suc depth)
  have rec: "frame_ok (\<lambda>h' s u. mergeObjects depth h' s u)" using Suc by simp
  show ?case
    unfolding frame_ok_def
  proof (intro allI impI)
    fix h s u r h'
    assume m: "mergeObjects (Suc depth) h s u = (r, h')"
    show "extends h h'"
    proof (cases "ownEntries h s")
      case (Inl e)
      with m show ?thesis by (simp add: extends_refl)
    next
      case (Inr result)
      note oe = this
      show ?thesis
      proof (cases "objectKeys h u")
        case (Inl e)
        with m oe show ?thesis by (simp add: extends_refl)
      next
        case (Inr keys)
        obtain r1 h1 where f: "forEachKey (mergeKey (\<lambda>h' s u. mergeObjects depth h' s u) s u) keys (result, h) = (r1, h1)"
          by (cases "forEachKey (mergeKey (\<lambda>h' s u. mergeObjects depth h' s u) s u) keys (result, h)")
        have e1: "extends h h1"
          by (rule forEachKey_extends [OF _ f]) (rule mergeKey_extends [OF rec])
        show ?thesis
        proof (cases r1)
          case (Inl e)
          with m oe Inr f e1 show ?thesis by simp
        next
          case (Inr res1)
          with m oe \<open>objectKeys h u = Inr keys\<close> f have "h' = h1 @ [JObject res1]"
            by (simp add: alloc_def)
          with e1 show ?thesis by (auto intro: extends_trans extends_append)
        qed
      qed
    qed
  qed
qed

lemma mergeObjects_fresh:
  assumes "mergeObjects depth h s u = (Inr v, h')"
  shows "\<exists>a ps. v = JRef a \<and> length h \<le> a \<and> heap_get h' a = Some (JObject ps)"
proof (cases depth)
  case 0
  with assms show ?thesis by simp
next
  case (Suc d)
  have rec: "frame_ok (\<lambda>h' s u. mergeObjects d h' s u)" using mergeObjects_frame_ok [of d] by simp
  from assms Suc obtain result keys res1 h1 where
    f: "forEachKey (mergeKey (\<lambda>h' s u. mergeObjects d h' s u) s u) keys (result, h) = (Inr res1, h1)"
    and r: "v = JRef (length h1)" "h' = h1 @ [JObject res1]"
    by (auto simp: alloc_def split: sum.splits prod.splits)
  have "extends h h1"
    by (rule forEachKey_extends [OF _ f]) (rule mergeKey_extends [OF rec])
  then have "length h \<le> length h1" by (rule extends_length)
  with r show ?thesis by (simp add: heap_get_def)
qed

text \<open>
  C10.  \<open>mergeObjects\<close> never mutates its arguments: whatever the call does (return or
  throw), every cell of the heap it started from is unchanged afterwards, so \<open>source\<close>,
  \<open>update\<close> and everything reachable from them are as before; and a returned result is
  a reference to an object cell that did not exist before the call.  A call whose result
  is ignored therefore has no effect on any existing object.
\<close>

theorem mergeObjects_frame:
  "mergeObjects depth h source update = (r, h') \<Longrightarrow>
   take (length h) h' = h \<and>
   (\<forall>v. r = Inr v \<longrightarrow> (\<exists>a ps. v = JRef a \<and> length h \<le> a \<and> heap_get h' a = Some (JObject ps)))"
  using mergeObjects_frame_ok [of depth] mergeObjects_fresh [of depth h source update _ h']
  by (auto simp: frame_ok_def extends_def)






lemma lookup_update: "lookup (AList.update k v ps) key = (if key = k then v else lookup ps key)"
  by (simp add: lookup_def update_conv')

lemma lookup_undefined: "key \<notin> fst ` set ps \<Longrightarrow> lookup ps key = JUndefined"
  by (simp add: lookup_def map_of_eq_None_iff [THEN iffD2])

lemma kindOf_extends:
  "extends h h' \<Longrightarrow> kindOf h v \<noteq> KDangling \<Longrightarrow> kindOf h' v = kindOf h v"
  by (cases v) (auto simp: kindOf_def dest: extends_heap_get split: option.splits)

lemma getProp_extends:
  "extends h h' \<Longrightarrow> heap_get h a = Some ob \<Longrightarrow> getProp h' (JRef a) key = getProp h (JRef a) key"
  by (auto simp: getProp_def dest: extends_heap_get)

lemma getProp_object:
  "heap_get h a = Some (JObject ps) \<Longrightarrow> getProp h (JRef a) key = Inr v \<Longrightarrow> v = lookup ps key"
  by (auto simp: getProp_def lookup_def notOwn_def split: option.splits if_splits)

lemma merged_field_extends:
  assumes e: "extends hc h1" and m: "merged_field rec h A B hc key v"
  shows "merged_field rec h A B h1 key v"
proof (cases "kindOf h (lookup B key)")
  case (KArray us)
  with m e show ?thesis by (auto simp: merged_field_def dest: extends_heap_get)
next
  case KObject
  with m obtain g1 g2 where "extends h g1" "extends g2 hc"
    "rec g1 (lookup A key) (lookup B key) = (Inr v, g2)"
    by (auto simp: merged_field_def)
  moreover from \<open>extends g2 hc\<close> e have "extends g2 h1" by (rule extends_trans)
  ultimately show ?thesis using KObject by (auto simp: merged_field_def)
next
  case KNullish
  with m show ?thesis by (simp add: merged_field_def)
next
  case KOther
  with m show ?thesis by (simp add: merged_field_def)
next
  case KDangling
  then show ?thesis by (simp add: merged_field_def)
qed

lemma mergeKey_known:
  assumes "getProp hc source key = Inr sv" "getProp hc update key = Inr uv"
  shows "mergeKey rec source update key (result, hc) =
     (case kindOf hc uv of
         KDangling \<Rightarrow> (Inl DanglingRef, hc)
       | KArray us \<Rightarrow>
           (Inr (AList.update key (JRef (length hc)) result),
            hc @ [JArray (uniq ((case kindOf hc sv of KArray xs \<Rightarrow> xs | _ \<Rightarrow> []) @ us))])
       | KObject \<Rightarrow>
           (case rec hc sv uv of
              (Inl e, h') \<Rightarrow> (Inl e, h')
            | (Inr v, h') \<Rightarrow> (Inr (AList.update key v result), h'))
       | KOther \<Rightarrow> (Inr (AList.update key uv result), hc)
       | KNullish \<Rightarrow>
           (if sv = JUndefined then (Inr (AList.update key uv result), hc)
            else (Inr result, hc)))"
  using assms by (simp add: mergeKey_def alloc_def Let_def split: kind.splits)

lemma mergeKey_other_keys:
  assumes "mergeKey rec source update key (result, hc) = (Inr result', h1)" "k' \<noteq> key"
  shows "lookup result' k' = lookup result k'"
proof -
  from assms(1) obtain sv uv where
    g: "getProp hc source key = Inr sv" "getProp hc update key = Inr uv"
    by (auto simp: mergeKey_def split: sum.splits)
  note eq = assms(1) [unfolded mergeKey_known [OF g]]
  show ?thesis
  proof (cases "kindOf hc uv")
    case (KArray us)
    with eq assms(2) show ?thesis by (auto simp: lookup_update)
  next
    case KObject
    with eq assms(2) show ?thesis by (auto simp: lookup_update split: prod.splits sum.splits)
  next
    case KNullish
    with eq assms(2) show ?thesis by (auto simp: lookup_update split: if_splits)
  next
    case KOther
    with eq assms(2) show ?thesis by (auto simp: lookup_update)
  next
    case KDangling
    with eq show ?thesis by simp
  qed
qed

lemma mergeKey_inv:
  assumes rec: "frame_ok rec"
    and a: "heap_get h a = Some (JObject A)" and b: "heap_get h b = Some (JObject B)"
    and inv: "merge_inv rec h A B D result hc"
    and step: "mergeKey rec (JRef a) (JRef b) key (result, hc) = (Inr result', h1)"
  shows "merge_inv rec h A B (insert key D) result' h1"
proof -
  from inv have ext: "extends h hc" by (simp add: merge_inv_def)
  have e1: "extends hc h1" using rec step by (rule mergeKey_extends)
  from step obtain sv0 uv0 where
    g0: "getProp hc (JRef a) key = Inr sv0" "getProp hc (JRef b) key = Inr uv0"
    by (auto simp: mergeKey_def split: sum.splits)
  have sv: "getProp hc (JRef a) key = Inr (lookup A key)"
    using getProp_extends [OF ext a, of key] g0(1) getProp_object [OF a, of key sv0] by simp
  have uv: "getProp hc (JRef b) key = Inr (lookup B key)"
    using getProp_extends [OF ext b, of key] g0(2) getProp_object [OF b, of key uv0] by simp
  note eq = step [unfolded mergeKey_known [OF sv uv]]
  have new: "merged_field rec h A B h1 key (lookup result' key)"
  proof (cases "kindOf h (lookup B key) = KDangling")
    case True
    then show ?thesis by (simp add: merged_field_def)
  next
    case False
    then have k: "kindOf hc (lookup B key) = kindOf h (lookup B key)"
      using ext by (simp add: kindOf_extends)
    show ?thesis
    proof (cases "kindOf h (lookup B key)")
      case (KArray us)
      show ?thesis
      proof (cases "kindOf h (lookup A key) = KDangling")
        case True
        then show ?thesis using KArray by (simp add: merged_field_def)
      next
        case False
        then have "kindOf hc (lookup A key) = kindOf h (lookup A key)"
          using ext by (simp add: kindOf_extends)
        then have sa: "(case kindOf hc (lookup A key) of KArray xs \<Rightarrow> xs | _ \<Rightarrow> []) = sourceArrayOf h (lookup A key)"
          by (simp add: sourceArrayOf_def)
        from eq k KArray have "result' = AList.update key (JRef (length hc)) result"
          and "h1 = hc @ [JArray (uniq (sourceArrayOf h (lookup A key) @ us))]"
          by (simp_all add: sa)
        then show ?thesis using KArray by (simp add: merged_field_def lookup_update heap_get_def)
      qed
    next
      case KObject
      with eq k obtain v where r: "rec hc (lookup A key) (lookup B key) = (Inr v, h1)"
        and "result' = AList.update key v result"
        by (auto split: prod.splits sum.splits)
      then show ?thesis using KObject ext extends_refl [of h1]
        by (auto simp: merged_field_def lookup_update)
    next
      case KNullish
      show ?thesis
      proof (cases "lookup A key = JUndefined")
        case True
        with eq k KNullish show ?thesis by (auto simp: merged_field_def lookup_update)
      next
        case False
        with eq k KNullish have "result' = result" by simp
        moreover have "key \<notin> D \<Longrightarrow> lookup result key = lookup A key"
          using inv by (simp add: merge_inv_def)
        moreover have "key \<in> D \<Longrightarrow> merged_field rec h A B hc key (lookup result key)"
          using inv by (simp add: merge_inv_def)
        ultimately show ?thesis using False KNullish by (cases "key \<in> D") (simp_all add: merged_field_def)
      qed
    next
      case KOther
      with eq k show ?thesis by (auto simp: merged_field_def lookup_update)
    next
      case KDangling
      with False show ?thesis by simp
    qed
  qed
  note other = mergeKey_other_keys [OF step]
  show ?thesis
    unfolding merge_inv_def
  proof (intro conjI allI impI)
    show "extends h h1" using ext e1 by (rule extends_trans)
  next
    fix k' assume "k' \<notin> insert key D"
    then show "lookup result' k' = lookup A k'" using other [of k'] inv by (simp add: merge_inv_def)
  next
    fix k' assume k': "k' \<in> insert key D"
    show "merged_field rec h A B h1 k' (lookup result' k')"
    proof (cases "k' = key")
      case True
      with new show ?thesis by simp
    next
      case False
      with k' inv have "merged_field rec h A B hc k' (lookup result k')" by (simp add: merge_inv_def)
      then show ?thesis using other [OF False] merged_field_extends [OF e1] by simp
    qed
  qed
qed

lemma forEachKey_inv:
  assumes step: "\<And>key D result hc result' h1.
      I D result hc \<Longrightarrow> f key (result, hc) = (Inr result', h1) \<Longrightarrow> I (insert key D) result' h1"
  shows "forEachKey f keys (result, hc) = (Inr R, h1) \<Longrightarrow> I D result hc \<Longrightarrow> I (D \<union> set keys) R h1"
proof (induction keys arbitrary: D result hc)
  case Nil
  then show ?case by simp
next
  case (Cons key keys)
  from Cons.prems(1) obtain result' h2 where
    s: "f key (result, hc) = (Inr result', h2)" and r: "forEachKey f keys (result', h2) = (Inr R, h1)"
    by (auto split: prod.splits sum.splits)
  from step [OF Cons.prems(2) s] have "I (insert key D) result' h2" .
  from Cons.IH [OF r this] show ?case by simp
qed

text \<open>
  Deep merge of an existing object \<open>A\<close> with an update \<open>B\<close>, when the call returns.  In
  the result \<open>R\<close>:
  a field of \<open>A\<close> that is neither \<open>null\<close> nor absent keeps its value when \<open>B\<close>'s field is
  \<open>null\<close> or absent; where \<open>B\<close>'s field is an array, the field is a new array holding
  \<open>A\<close>'s elements (none when \<open>A\<close>'s field is not an array) followed by \<open>B\<close>'s, each
  element once, in the order of first occurrence; where \<open>B\<close>'s field is a scalar (or a
  date), it replaces \<open>A\<close>'s; and where \<open>B\<close>'s field is another object, the field is the
  merge of the two fields by the same function.
\<close>

lemma mergeObjects_fields:
  assumes a: "heap_get h a = Some (JObject A)" and b: "heap_get h b = Some (JObject B)"
    and m: "mergeObjects depth h (JRef a) (JRef b) = (Inr v, h')"
  shows "\<exists>c R. v = JRef c \<and> heap_get h' c = Some (JObject R) \<and>
     (\<forall>key. lookup A key \<noteq> JUndefined \<and> lookup A key \<noteq> JNull \<and>
            (lookup B key = JUndefined \<or> lookup B key = JNull) \<longrightarrow>
            lookup R key = lookup A key) \<and>
     (\<forall>key us. kindOf h (lookup B key) = KArray us \<and> kindOf h (lookup A key) \<noteq> KDangling \<longrightarrow>
        (\<exists>c'. lookup R key = JRef c' \<and>
           heap_get h' c' = Some (JArray (uniq (sourceArrayOf h (lookup A key) @ us))))) \<and>
     (\<forall>key. kindOf h (lookup B key) = KOther \<longrightarrow> lookup R key = lookup B key) \<and>
     (\<forall>key. kindOf h (lookup B key) = KObject \<longrightarrow>
        (\<exists>h1 h2. take (length h) h1 = h \<and> take (length h2) h' = h2 \<and>
           mergeObjects (depth - 1) h1 (lookup A key) (lookup B key) = (Inr (lookup R key), h2)))"
proof (cases depth)
  case 0
  with m show ?thesis by simp
next
  case (Suc d)
  have rec: "frame_ok (\<lambda>h' s u. mergeObjects d h' s u)" using mergeObjects_frame_ok [of d] by simp
  from m Suc a b obtain R h1 where
    f: "forEachKey (mergeKey (\<lambda>h' s u. mergeObjects d h' s u) (JRef a) (JRef b)) (map fst B) (A, h) = (Inr R, h1)"
    and v: "v = JRef (length h1)" and h': "h' = h1 @ [JObject R]"
    by (auto simp: alloc_def ownEntries_def objectKeys_def split: sum.splits prod.splits)
  let ?rec = "\<lambda>h' s u. mergeObjects d h' s u"
  have "merge_inv ?rec h A B {} A h" by (simp add: merge_inv_def extends_refl)
  with f have "merge_inv ?rec h A B ({} \<union> set (map fst B)) R h1"
    by (rule forEachKey_inv [where I = "merge_inv ?rec h A B", rotated]) (rule mergeKey_inv [OF rec a b])
  then have inv: "merge_inv ?rec h A B (fst ` set B) R h1" by simp
  have e: "extends h1 h'" using h' by (simp add: extends_append)
  have inB: "key \<in> fst ` set B" if "lookup B key \<noteq> JUndefined" for key
    using that lookup_undefined by blast
  have c1: "lookup R key = lookup A key"
    if p: "lookup A key \<noteq> JUndefined \<and> lookup A key \<noteq> JNull \<and>
      (lookup B key = JUndefined \<or> lookup B key = JNull)" for key
  proof (cases "key \<in> fst ` set B")
    case True
    with inv have "merged_field ?rec h A B h1 key (lookup R key)" by (simp add: merge_inv_def)
    moreover from p have "kindOf h (lookup B key) = KNullish" by (auto simp: kindOf_def)
    ultimately show ?thesis using p by (simp add: merged_field_def)
  next
    case False
    with inv show ?thesis by (simp add: merge_inv_def)
  qed
  have c2: "\<exists>c'. lookup R key = JRef c' \<and>
        heap_get h' c' = Some (JArray (uniq (sourceArrayOf h (lookup A key) @ us)))"
    if p: "kindOf h (lookup B key) = KArray us \<and> kindOf h (lookup A key) \<noteq> KDangling" for key us
  proof -
    from p have "lookup B key \<noteq> JUndefined" by (auto simp: kindOf_def)
    then have "key \<in> fst ` set B" by (rule inB)
    with inv have "merged_field ?rec h A B h1 key (lookup R key)" by (simp add: merge_inv_def)
    with p obtain c' where "lookup R key = JRef c'"
      "heap_get h1 c' = Some (JArray (uniq (sourceArrayOf h (lookup A key) @ us)))"
      by (auto simp: merged_field_def)
    with e show ?thesis by (auto dest: extends_heap_get)
  qed
  have c3: "lookup R key = lookup B key" if p: "kindOf h (lookup B key) = KOther" for key
  proof -
    from p have "lookup B key \<noteq> JUndefined" by (auto simp: kindOf_def)
    then have "key \<in> fst ` set B" by (rule inB)
    with inv have "merged_field ?rec h A B h1 key (lookup R key)" by (simp add: merge_inv_def)
    with p show ?thesis by (simp add: merged_field_def)
  qed
  have c4: "\<exists>h1 h2. take (length h) h1 = h \<and> take (length h2) h' = h2 \<and>
           mergeObjects (depth - 1) h1 (lookup A key) (lookup B key) = (Inr (lookup R key), h2)"
    if p: "kindOf h (lookup B key) = KObject" for key
  proof -
    from p have "lookup B key \<noteq> JUndefined" by (auto simp: kindOf_def)
    then have "key \<in> fst ` set B" by (rule inB)
    with inv have "merged_field ?rec h A B h1 key (lookup R key)" by (simp add: merge_inv_def)
    with p obtain g1 g2 where "extends h g1" "extends g2 h1"
      "mergeObjects d g1 (lookup A key) (lookup B key) = (Inr (lookup R key), g2)"
      by (auto simp: merged_field_def)
    moreover from \<open>extends g2 h1\<close> e have "extends g2 h'" by (rule extends_trans)
    ultimately show ?thesis using Suc by (auto simp: extends_def)
  qed
  have c0: "heap_get h' (length h1) = Some (JObject R)" using h' by (simp add: heap_get_def)
  show ?thesis
    apply (rule exI [of _ "length h1"])
    apply (rule exI [of _ R])
    using v c0 c1 c2 c3 c4 by blast
qed

lemma set_uniq_aux: "set (foldl set_add acc xs) = set acc \<union> set xs"
  by (induction xs arbitrary: acc) (auto simp: set_add_def)

lemma distinct_uniq_aux: "distinct acc \<Longrightarrow> distinct (foldl set_add acc xs)"
  by (induction xs arbitrary: acc) (auto simp: set_add_def)

lemma set_uniq: "set (uniq xs) = set xs" by (simp add: uniq_def set_uniq_aux)
lemma distinct_uniq: "distinct (uniq xs)" by (simp add: uniq_def distinct_uniq_aux)




lemmas js_eval = ownEntries_def objectKeys_def heap_get_def mergeKey_def getProp_def
  notOwn_def object_prototype_names_def
  lookup_def kindOf_def alloc_def uniq_def set_add_def

lemma merge_example:
  "mergeObjects 2 merge_heap (JRef 0) (JRef 1) = (Inr (JRef 8), merged_heap)"
  by (simp add: merge_heap_def merged_heap_def numeral_2_eq_2 js_eval)

theorem mergeObjects_frame_witness:
  "mergeObjects 2 merge_heap (JRef 0) (JRef 1) = (Inr (JRef 8), merged_heap) \<and>
   take (length merge_heap) merged_heap = merge_heap \<and>
   (\<exists>a ps. JRef 8 = JRef a \<and> length merge_heap \<le> a \<and> heap_get merged_heap a = Some (JObject ps))"
  using mergeObjects_frame [OF merge_example] merge_example by simp

lemma mergeObjects_fields_example:
  "\<exists>c R. heap_get merged_heap c = Some (JObject R) \<and>
     lookup R ''a'' = JNum 1 \<and> lookup R ''b'' = JStr ''x'' \<and>
     (\<exists>c'. lookup R ''tags'' = JRef c' \<and>
        heap_get merged_heap c' = Some (JArray [JStr ''p'', JStr ''q'', JStr ''r'']))"
proof -
  let ?A = "[(''a'', JNum 1), (''tags'', JRef 2), (''n'', JRef 4)]"
  let ?B = "[(''a'', JNull), (''b'', JStr ''x''), (''tags'', JRef 3), (''n'', JRef 5)]"
  have a: "heap_get merge_heap 0 = Some (JObject ?A)" by (simp add: merge_heap_def heap_get_def)
  have b: "heap_get merge_heap 1 = Some (JObject ?B)" by (simp add: merge_heap_def heap_get_def)
  from mergeObjects_fields [OF a b merge_example] obtain c R where
    R: "heap_get merged_heap c = Some (JObject R)"
    and keep: "\<And>key. lookup ?A key \<noteq> JUndefined \<and> lookup ?A key \<noteq> JNull \<and>
            (lookup ?B key = JUndefined \<or> lookup ?B key = JNull) \<Longrightarrow> lookup R key = lookup ?A key"
    and arr: "\<And>key us. kindOf merge_heap (lookup ?B key) = KArray us \<and>
            kindOf merge_heap (lookup ?A key) \<noteq> KDangling \<Longrightarrow>
        (\<exists>c'. lookup R key = JRef c' \<and>
           heap_get merged_heap c' = Some (JArray (uniq (sourceArrayOf merge_heap (lookup ?A key) @ us))))"
    and sc: "\<And>key. kindOf merge_heap (lookup ?B key) = KOther \<Longrightarrow> lookup R key = lookup ?B key"
    by blast
  have 1: "lookup R ''a'' = JNum 1" using keep [of "''a''"] by (simp add: lookup_def)
  have 2: "lookup R ''b'' = JStr ''x''" using sc [of "''b''"] by (simp add: lookup_def kindOf_def)
  have 3: "\<exists>c'. lookup R ''tags'' = JRef c' \<and>
        heap_get merged_heap c' = Some (JArray [JStr ''p'', JStr ''q'', JStr ''r''])"
    using arr [of "''tags''" "[JStr ''q'', JStr ''r'']"]
    by (simp add: lookup_def kindOf_def merge_heap_def heap_get_def sourceArrayOf_def uniq_def set_add_def)
  from R 1 2 3 show ?thesis by blast
qed




text \<open>
  C3.  Deep merge of the existing object \<open>A = {a: 1}\<close> with the update
  \<open>B = {a: 2, n: {y: 2}}\<close>.  The call returns no merged object, whatever the call stack
  allows: the field \<open>n\<close> of \<open>B\<close> is an object and \<open>A\<close> has no field \<open>n\<close>, so the recursive
  call is \<open>mergeObjects(undefined, {y: 2})\<close>, which reads \<open>source["y"]\<close> of \<open>undefined\<close> and
  throws \<open>TypeError\<close>.  The scalar \<open>a\<close> of \<open>B\<close> therefore replaces nothing, and the heap
  is as it was.  With a call stack of one or no frame the call fails with \<open>RangeError\<close>.
\<close>

theorem mergeObjects_throws_on_new_nested_object:
  "mergeObjects (Suc (Suc depth)) nested_heap (JRef 0) (JRef 1) = (Inl TypeError, nested_heap) \<and>
   mergeObjects (Suc 0) nested_heap (JRef 0) (JRef 1) = (Inl RangeError, nested_heap) \<and>
   mergeObjects 0 nested_heap (JRef 0) (JRef 1) = (Inl RangeError, nested_heap)"
  by (simp add: nested_heap_def js_eval)

section \<open>Properties of identity deduplication\<close>

text \<open>
  C6.  When the record's email is registered for one identity and its phone for another,
  the identity registered for the phone is the \<open>existingId\<close> that \<open>prepareUserData\<close>
  returns, writes as \<open>userId\<close> into the staged user data, and under which it files the
  record's source identifier in the merged user map.  The registered identifier is a
  non-empty string, as every identifier of the store is.
\<close>

theorem phone_winner_is_canonical:
  assumes "parsed item"
    and "email item = Some e" "e \<noteq> []" "map_of (emailToUserIdMap st) e = Some a"
    and "phone item = Some p" "p \<noteq> []" "map_of (phoneToUserIdMap st) p = Some b"
    and "b \<noteq> []"
  shows "prepareUserData st item newId =
     (Some b,
      st\<lparr>mergedUserMap :=
            AList.update b
              ((case map_of (mergedUserMap st) b of None \<Rightarrow> [] | Some ids \<Rightarrow> ids) @ [sourceId item])
              (mergedUserMap st),
         usersStage := usersStage st @ [(item, Some b)]\<rparr>)"
  using assms
  by (simp add: prepareUserData_def checkEmail_def checkPhone_def addMerged_def defaultToNewId_def)

theorem phone_winner_is_canonical_witness:
  "prepareUserData st_two rec_both ''u3'' =
     (Some ''u2'',
      st_two\<lparr>mergedUserMap := [(''u1'', [''1'']), (''u2'', [''2'', ''3''])],
             usersStage := [(rec_both, Some ''u2'')]\<rparr>)"
  using phone_winner_is_canonical [of rec_both "''a@x.com''" st_two "''u1''" "''555''" "''u2''" "''u3''"]
  by (simp add: st_two_def rec_both_def)


lemma prepareUserData_merged:
  assumes "prepareUserData st item newId = (r, st')"
  shows "mergedUserMap st' = mergedUserMap st \<or>
     (\<exists>k. mergedUserMap st' =
        AList.update k ((case map_of (mergedUserMap st) k of None \<Rightarrow> [] | Some ids \<Rightarrow> ids)
                          @ [sourceId item]) (mergedUserMap st))"
proof (cases "parsed item")
  case False
  with assms show ?thesis by (simp add: prepareUserData_def)
next
  case True
  obtain x1 s1 where 1: "checkEmail st item newId = (x1, s1)" by (cases "checkEmail st item newId")
  obtain x2 s2 where 2: "checkPhone x1 s1 item newId = (x2, s2)" by (cases "checkPhone x1 s1 item newId")
  have m1: "mergedUserMap s1 = mergedUserMap st"
    using 1 by (auto simp: checkEmail_def split: option.splits if_splits)
  have m2: "mergedUserMap s2 = mergedUserMap s1"
    using 2 by (auto simp: checkPhone_def split: option.splits if_splits)
  from assms True 1 2 m1 m2 show ?thesis
    by (auto simp: prepareUserData_def Let_def addMerged_def split: if_splits)
qed

lemma bucket_update:
  assumes d: "buckets_disjoint M" and s: "s \<notin> bucket_ids M"
  shows "buckets_disjoint (AList.update k ((case map_of M k of None \<Rightarrow> [] | Some ids \<Rightarrow> ids) @ [s]) M)"
    and "bucket_ids (AList.update k ((case map_of M k of None \<Rightarrow> [] | Some ids \<Rightarrow> ids) @ [s]) M)
         \<subseteq> insert s (bucket_ids M)"
proof -
  let ?old = "case map_of M k of None \<Rightarrow> [] | Some ids \<Rightarrow> ids"
  let ?M' = "AList.update k (?old @ [s]) M"
  have mo: "map_of ?M' = (map_of M)(k \<mapsto> ?old @ [s])" by (rule update_conv')
  have old_sub: "set ?old \<subseteq> bucket_ids M"
  proof (cases "map_of M k")
    case None
    then show ?thesis by simp
  next
    case (Some ids)
    then show ?thesis by (auto simp: bucket_ids_def)
  qed
  have other: "set b \<subseteq> bucket_ids M" if "map_of M k' = Some b" for k' b
    using that by (auto simp: bucket_ids_def)
  have old_disj: "set ?old \<inter> set b = {}" if "map_of M k' = Some b" "k' \<noteq> k" for k' b
  proof (cases "map_of M k")
    case None
    then show ?thesis by simp
  next
    case (Some ids)
    with d that show ?thesis unfolding buckets_disjoint_def by (simp; blast)
  qed
  show "buckets_disjoint ?M'"
    unfolding buckets_disjoint_def
  proof (intro allI impI)
    fix k1 k2 b1 b2
    assume h: "k1 \<noteq> k2 \<and> map_of ?M' k1 = Some b1 \<and> map_of ?M' k2 = Some b2"
    show "set b1 \<inter> set b2 = {}"
    proof (cases "k1 = k")
      case True
      with h have b1: "b1 = ?old @ [s]" and b2: "map_of M k2 = Some b2" and ne: "k2 \<noteq> k"
        by (auto simp: mo)
      from other [OF b2] s have "s \<notin> set b2" by blast
      with old_disj [OF b2 ne] b1 show ?thesis by auto
    next
      case False
      note k1 = this
      show ?thesis
      proof (cases "k2 = k")
        case True
        with h k1 have b2: "b2 = ?old @ [s]" and b1: "map_of M k1 = Some b1"
          by (auto simp: mo)
        from other [OF b1] s have "s \<notin> set b1" by blast
        with old_disj [OF b1 k1] b2 show ?thesis by auto
      next
        case False
        with h k1 have "map_of M k1 = Some b1" "map_of M k2 = Some b2" by (auto simp: mo)
        with d h show ?thesis unfolding buckets_disjoint_def by blast
      qed
    qed
  qed
  show "bucket_ids ?M' \<subseteq> insert s (bucket_ids M)"
  proof
    fix x assume "x \<in> bucket_ids ?M'"
    then obtain k' b where kb: "map_of ?M' k' = Some b" "x \<in> set b" by (auto simp: bucket_ids_def)
    show "x \<in> insert s (bucket_ids M)"
    proof (cases "k' = k")
      case True
      with kb have "x \<in> set (?old @ [s])" by (simp add: mo)
      with old_sub show ?thesis by auto
    next
      case False
      with kb have "map_of M k' = Some b" by (simp add: mo)
      with kb other show ?thesis by blast
    qed
  qed
qed

lemma prepareUserData_buckets:
  assumes "prepareUserData st item newId = (r, st')"
    and "buckets_disjoint (mergedUserMap st)" and "sourceId item \<notin> bucket_ids (mergedUserMap st)"
  shows "buckets_disjoint (mergedUserMap st') \<and>
         bucket_ids (mergedUserMap st') \<subseteq> insert (sourceId item) (bucket_ids (mergedUserMap st))"
proof -
  from prepareUserData_merged [OF assms(1)] show ?thesis
  proof
    assume "mergedUserMap st' = mergedUserMap st"
    with assms(2) show ?thesis by auto
  next
    assume "\<exists>k. mergedUserMap st' =
        AList.update k ((case map_of (mergedUserMap st) k of None \<Rightarrow> [] | Some ids \<Rightarrow> ids)
                          @ [sourceId item]) (mergedUserMap st)"
    then obtain k where "mergedUserMap st' =
        AList.update k ((case map_of (mergedUserMap st) k of None \<Rightarrow> [] | Some ids \<Rightarrow> ids)
                          @ [sourceId item]) (mergedUserMap st)" ..
    with bucket_update [OF assms(2,3), of k] show ?thesis by simp
  qed
qed

text \<open>
  C7.  When the source identifiers of the processed records are pairwise different and
  none of them is in the merged user map yet, buckets of different canonical identifiers
  stay disjoint, however the run ends.
\<close>

theorem buckets_disjoint_for_distinct_sources:
  assumes "buckets_disjoint (mergedUserMap st)"
    and "distinct (map (\<lambda>x. sourceId (fst x)) items)"
    and "\<forall>x \<in> set items. sourceId (fst x) \<notin> bucket_ids (mergedUserMap st)"
    and "dedupAll st items = (r, st')"
  shows "buckets_disjoint (mergedUserMap st')"
  using assms
proof (induction items arbitrary: st)
  case Nil
  then show ?case by simp
next
  case (Cons x items)
  obtain item newId where x: "x = (item, newId)" by (cases x)
  obtain r1 st1 where p: "prepareUserData st item newId = (r1, st1)"
    by (cases "prepareUserData st item newId")
  from Cons.prems(3) x have fresh: "sourceId item \<notin> bucket_ids (mergedUserMap st)" by simp
  from prepareUserData_buckets [OF p Cons.prems(1) fresh]
  have d1: "buckets_disjoint (mergedUserMap st1)"
    and sub: "bucket_ids (mergedUserMap st1) \<subseteq> insert (sourceId item) (bucket_ids (mergedUserMap st))"
    by simp_all
  show ?case
  proof (cases r1)
    case None
    with Cons.prems(4) x p d1 show ?thesis by simp
  next
    case (Some existingId)
    with Cons.prems(4) x p have run: "dedupAll st1 items = (r, st')" by simp
    have dist: "distinct (map (\<lambda>x. sourceId (fst x)) items)" using Cons.prems(2) by simp
    have "\<forall>y \<in> set items. sourceId (fst y) \<notin> bucket_ids (mergedUserMap st1)"
    proof
      fix y assume y: "y \<in> set items"
      with Cons.prems(2) x have "sourceId (fst y) \<noteq> sourceId item" by force
      moreover from Cons.prems(3) y have "sourceId (fst y) \<notin> bucket_ids (mergedUserMap st)" by simp
      ultimately show "sourceId (fst y) \<notin> bucket_ids (mergedUserMap st1)" using sub by blast
    qed
    from Cons.IH [OF d1 dist this run] show ?thesis .
  qed
qed

lemmas dedup_eval = prepareUserData_def checkEmail_def checkPhone_def addMerged_def
  defaultToNewId_def empty_dedup_def Let_def

text \<open>
  Two records with the same source identifier and different emails and phones end in two
  buckets.
\<close>

theorem duplicate_source_id_in_two_buckets:
  "mergedUserMap (snd (dedupAll empty_dedup [(rec_a, ''u1''), (rec_b, ''u2'')])) =
     [(''u1'', [''42'']), (''u2'', [''42''])] \<and>
   \<not> buckets_disjoint (mergedUserMap (snd (dedupAll empty_dedup [(rec_a, ''u1''), (rec_b, ''u2'')])))"
proof -
  have m: "mergedUserMap (snd (dedupAll empty_dedup [(rec_a, ''u1''), (rec_b, ''u2'')])) =
     [(''u1'', [''42'']), (''u2'', [''42''])]"
    by (simp add: dedup_eval rec_a_def rec_b_def)
  have "\<not> buckets_disjoint [(''u1'', [''42'']), (''u2'', [''42''])]"
    unfolding buckets_disjoint_def
    by (simp add: exI [of _ "''u1''"] exI [of _ "''u2''"])
  with m show ?thesis by simp
qed

theorem buckets_disjoint_for_distinct_sources_witness:
  "mergedUserMap (snd (dedupAll st_two [(rec_a, ''u3''), (rec_both, ''u4'')])) =
     [(''u1'', [''1'', ''42'']), (''u2'', [''2'', ''3''])] \<and>
   buckets_disjoint (mergedUserMap (snd (dedupAll st_two [(rec_a, ''u3''), (rec_both, ''u4'')]))) \<and>
   set [''1'', ''42''] \<inter> set [''2'', ''3''] = ({} :: string set)"
proof -
  let ?items = "[(rec_a, ''u3''), (rec_both, ''u4'')]"
  have d0: "buckets_disjoint (mergedUserMap st_two)"
    by (auto simp: buckets_disjoint_def st_two_def split: if_splits)
  have dist: "distinct (map (\<lambda>x. sourceId (fst x)) ?items)"
    by (simp add: rec_a_def rec_both_def)
  have fr: "\<forall>x \<in> set ?items. sourceId (fst x) \<notin> bucket_ids (mergedUserMap st_two)"
    by (auto simp: bucket_ids_def st_two_def rec_a_def rec_both_def split: if_splits)
  have run: "dedupAll st_two ?items =
      (fst (dedupAll st_two ?items), snd (dedupAll st_two ?items))" by simp
  have m: "mergedUserMap (snd (dedupAll st_two ?items)) =
     [(''u1'', [''1'', ''42'']), (''u2'', [''2'', ''3''])]"
    by (simp add: dedup_eval st_two_def rec_a_def rec_both_def)
  from buckets_disjoint_for_distinct_sources [OF d0 dist fr run]
  have d: "buckets_disjoint (mergedUserMap (snd (dedupAll st_two ?items)))" .
  then have "buckets_disjoint [(''u1'', [''1'', ''42'']), (''u2'', [''2'', ''3''])]"
    by (simp only: m)
  then have "set [''1'', ''42''] \<inter> set [''2'', ''3''] = ({} :: string set)"
    unfolding buckets_disjoint_def
    by (elim allE [of _ "''u1''"] allE [of _ "''u2''"] allE [of _ "[''1'', ''42'']"]
        allE [of _ "[''2'', ''3'']"]) simp
  with m d show ?thesis by simp
qed

lemma map_of_apsnd: "map_of (map (apsnd f) E) k = map_option f (map_of E k)"
  by (induction E) auto

lemma update_apsnd: "AList.update k (f v) (map (apsnd f) E) = map (apsnd f) (AList.update k v E)"
  by (induction E) auto

lemma map_of_apfst:
  "inj_on f (insert k (fst ` set M)) \<Longrightarrow> map_of (map (apfst f) M) (f k) = map_of M k"
proof (induction M)
  case Nil
  then show ?case by simp
next
  case (Cons x M)
  obtain a b where x: "x = (a, b)" by (cases x)
  from Cons.prems have inj: "inj_on f (insert k (fst ` set M))"
    by (rule inj_on_subset) auto
  from Cons.prems x have "f a = f k \<longleftrightarrow> a = k" "f k = f a \<longleftrightarrow> k = a"
    by (auto simp: inj_on_def)
  with Cons.IH [OF inj] x show ?case by auto
qed

lemma update_apfst:
  "inj_on f (insert k (fst ` set M)) \<Longrightarrow>
   AList.update (f k) v (map (apfst f) M) = map (apfst f) (AList.update k v M)"
proof (induction M)
  case Nil
  then show ?case by simp
next
  case (Cons x M)
  obtain a b where x: "x = (a, b)" by (cases x)
  from Cons.prems have inj: "inj_on f (insert k (fst ` set M))"
    by (rule inj_on_subset) auto
  from Cons.prems x have "f a = f k \<longleftrightarrow> a = k" "f k = f a \<longleftrightarrow> k = a"
    by (auto simp: inj_on_def)
  with Cons.IH [OF inj] x show ?case by auto
qed

lemma set_update_subset: "set (AList.update k v al) \<subseteq> insert (k, v) (set al)"
  by (induction al) auto

lemma admissible_mono: "admissible \<rho> S \<Longrightarrow> T \<subseteq> S \<Longrightarrow> admissible \<rho> T"
  by (auto simp: admissible_def intro: inj_on_subset)

lemma rename_simps [simp]:
  "emailToUserIdMap (rename_state \<rho> st) = map (apsnd \<rho>) (emailToUserIdMap st)"
  "phoneToUserIdMap (rename_state \<rho> st) = map (apsnd \<rho>) (phoneToUserIdMap st)"
  "mergedUserMap (rename_state \<rho> st) = map (apfst \<rho>) (mergedUserMap st)"
  "usersStage (rename_state \<rho> st) = map (apsnd (map_option \<rho>)) (usersStage st)"
  by (simp_all add: rename_state_def)

lemma rename_state_updates:
  "rename_state \<rho> (st\<lparr>emailToUserIdMap := E\<rparr>) = (rename_state \<rho> st)\<lparr>emailToUserIdMap := map (apsnd \<rho>) E\<rparr>"
  "rename_state \<rho> (st\<lparr>phoneToUserIdMap := P\<rparr>) = (rename_state \<rho> st)\<lparr>phoneToUserIdMap := map (apsnd \<rho>) P\<rparr>"
  "rename_state \<rho> (st\<lparr>mergedUserMap := M\<rparr>) = (rename_state \<rho> st)\<lparr>mergedUserMap := map (apfst \<rho>) M\<rparr>"
  "rename_state \<rho> (st\<lparr>usersStage := U\<rparr>) = (rename_state \<rho> st)\<lparr>usersStage := map (apsnd (map_option \<rho>)) U\<rparr>"
  by (simp_all add: rename_state_def)

lemma checkEmail_rename:
  "checkEmail (rename_state \<rho> st) item (\<rho> newId) =
     (map_option \<rho> (fst (checkEmail st item newId)), rename_state \<rho> (snd (checkEmail st item newId)))"
  by (auto simp: checkEmail_def map_of_apsnd update_apsnd rename_state_updates split: option.splits)

lemma checkPhone_rename:
  "checkPhone (map_option \<rho> x) (rename_state \<rho> st) item (\<rho> newId) =
     (map_option \<rho> (fst (checkPhone x st item newId)), rename_state \<rho> (snd (checkPhone x st item newId)))"
  by (auto simp: checkPhone_def map_of_apsnd update_apsnd rename_state_updates split: option.splits)

lemma snd_update_subset: "snd ` set (AList.update k v al) \<subseteq> insert v (snd ` set al)"
  using set_update_subset [of k v al] by force

lemma fst_update_subset: "fst ` set (AList.update k v al) \<subseteq> insert k (fst ` set al)"
  using set_update_subset [of k v al] by force

lemma map_of_snd: "map_of al k = Some v \<Longrightarrow> v \<in> snd ` set al"
  by (force dest: map_of_SomeD)

lemma checkEmail_facts:
  assumes "checkEmail st item newId = (x, st')"
  shows "mergedUserMap st' = mergedUserMap st" "phoneToUserIdMap st' = phoneToUserIdMap st"
    "snd ` set (emailToUserIdMap st') \<subseteq> insert newId (snd ` set (emailToUserIdMap st))"
    "set_option x \<subseteq> snd ` set (emailToUserIdMap st)"
    "usersStage st' = usersStage st"
proof -
  show "usersStage st' = usersStage st"
    using assms by (auto simp: checkEmail_def split: option.splits if_splits)
  show "mergedUserMap st' = mergedUserMap st"
    using assms by (auto simp: checkEmail_def split: option.splits if_splits)
  show "phoneToUserIdMap st' = phoneToUserIdMap st"
    using assms by (auto simp: checkEmail_def split: option.splits if_splits)
  show "snd ` set (emailToUserIdMap st') \<subseteq> insert newId (snd ` set (emailToUserIdMap st))"
  proof (cases "email item")
    case None
    with assms show ?thesis by (auto simp: checkEmail_def)
  next
    case (Some e)
    show ?thesis
    proof (cases "e = [] \<or> map_of (emailToUserIdMap st) e \<noteq> None")
      case True
      with assms Some have "st' = st" by (auto simp: checkEmail_def split: if_splits)
      then show ?thesis by auto
    next
      case False
      with assms Some have "emailToUserIdMap st' = AList.update e newId (emailToUserIdMap st)"
        by (auto simp: checkEmail_def)
      then show ?thesis using snd_update_subset [of e newId "emailToUserIdMap st"] by simp
    qed
  qed
  show "set_option x \<subseteq> snd ` set (emailToUserIdMap st)"
  proof (cases x)
    case None
    then show ?thesis by simp
  next
    case (Some i)
    with assms have "\<exists>e. map_of (emailToUserIdMap st) e = Some i"
      by (auto simp: checkEmail_def split: option.splits if_splits)
    then show ?thesis using Some by (auto dest: map_of_snd)
  qed
qed

lemma checkPhone_facts:
  assumes "checkPhone x0 st item newId = (x, st')"
  shows "mergedUserMap st' = mergedUserMap st" "emailToUserIdMap st' = emailToUserIdMap st"
    "snd ` set (phoneToUserIdMap st') \<subseteq> insert newId (snd ` set (phoneToUserIdMap st))"
    "set_option x \<subseteq> set_option x0 \<union> snd ` set (phoneToUserIdMap st)"
    "usersStage st' = usersStage st"
proof -
  show "usersStage st' = usersStage st"
    using assms by (auto simp: checkPhone_def split: option.splits if_splits)
  show "mergedUserMap st' = mergedUserMap st"
    using assms by (auto simp: checkPhone_def split: option.splits if_splits)
  show "emailToUserIdMap st' = emailToUserIdMap st"
    using assms by (auto simp: checkPhone_def split: option.splits if_splits)
  show "snd ` set (phoneToUserIdMap st') \<subseteq> insert newId (snd ` set (phoneToUserIdMap st))"
  proof (cases "phone item")
    case None
    with assms show ?thesis by (auto simp: checkPhone_def)
  next
    case (Some p)
    show ?thesis
    proof (cases "p = [] \<or> map_of (phoneToUserIdMap st) p \<noteq> None")
      case True
      with assms Some have "st' = st" by (auto simp: checkPhone_def split: if_splits)
      then show ?thesis by auto
    next
      case False
      with assms Some have "phoneToUserIdMap st' = AList.update p newId (phoneToUserIdMap st)"
        by (auto simp: checkPhone_def)
      then show ?thesis using snd_update_subset [of p newId "phoneToUserIdMap st"] by simp
    qed
  qed
  show "set_option x \<subseteq> set_option x0 \<union> snd ` set (phoneToUserIdMap st)"
  proof (cases x)
    case None
    then show ?thesis by simp
  next
    case (Some i)
    with assms have "x0 = Some i \<or> (\<exists>p. map_of (phoneToUserIdMap st) p = Some i)"
      by (auto simp: checkPhone_def split: option.splits if_splits)
    then show ?thesis using Some by (auto dest: map_of_snd)
  qed
qed

lemma addMerged_rename:
  assumes "inj_on \<rho> (insert k (fst ` set (mergedUserMap st)))"
  shows "addMerged (\<rho> k) s (rename_state \<rho> st) = rename_state \<rho> (addMerged k s st)"
  using assms
  by (simp add: addMerged_def map_of_apfst update_apfst rename_state_updates)

lemma defaultToNewId_rename:
  assumes "admissible \<rho> S" "set_option x \<subseteq> S"
  shows "defaultToNewId (map_option \<rho> x) (\<rho> newId) = \<rho> (defaultToNewId x newId)"
proof (cases x)
  case None
  then show ?thesis by (simp add: defaultToNewId_def)
next
  case (Some i)
  with assms have "\<rho> i = [] \<longleftrightarrow> i = []" by (auto simp: admissible_def)
  with Some show ?thesis by (simp add: defaultToNewId_def)
qed

lemma defaultToNewId_in: "defaultToNewId x newId \<in> insert newId (set_option x)"
  by (cases x) (auto simp: defaultToNewId_def)




lemma check_ids:
  assumes 1: "checkEmail st item newId = (x1, s1)" and 2: "checkPhone x1 s1 item newId = (x2, s2)"
  shows "set_option x2 \<subseteq> state_ids st"
    and "mergedUserMap s2 = mergedUserMap st"
    and "snd ` set (emailToUserIdMap s2) \<subseteq> insert newId (state_ids st)"
    and "snd ` set (phoneToUserIdMap s2) \<subseteq> insert newId (state_ids st)"
    and "usersStage s2 = usersStage st"
proof -
  note f1 = checkEmail_facts [OF 1] and f2 = checkPhone_facts [OF 2]
  show "usersStage s2 = usersStage st" using f1(5) f2(5) by simp
  have a: "set_option x1 \<subseteq> state_ids st" using f1(4) unfolding state_ids_def by blast
  have "snd ` set (phoneToUserIdMap s1) \<subseteq> state_ids st"
    unfolding f1(2) state_ids_def by blast
  with f2(4) a show "set_option x2 \<subseteq> state_ids st" by blast
  show "mergedUserMap s2 = mergedUserMap st" using f1(1) f2(1) by simp
  have "snd ` set (emailToUserIdMap st) \<subseteq> state_ids st" unfolding state_ids_def by blast
  with f1(3) show "snd ` set (emailToUserIdMap s2) \<subseteq> insert newId (state_ids st)"
    unfolding f2(2) by blast
  have "snd ` set (phoneToUserIdMap st) \<subseteq> state_ids st" unfolding state_ids_def by blast
  with f2(3) show "snd ` set (phoneToUserIdMap s2) \<subseteq> insert newId (state_ids st)"
    unfolding f1(2) by blast
qed

lemma prepareUserData_parsed:
  assumes "parsed item" "checkEmail st item newId = (x1, s1)" "checkPhone x1 s1 item newId = (x2, s2)"
  shows "prepareUserData st item newId =
     (Some (defaultToNewId x2 newId),
      (if defaultToNewId x2 newId \<noteq> [] then addMerged (defaultToNewId x2 newId) (sourceId item) s2 else s2)
        \<lparr>usersStage :=
           usersStage (if defaultToNewId x2 newId \<noteq> [] then addMerged (defaultToNewId x2 newId) (sourceId item) s2 else s2)
             @ [(item, if defaultToNewId x2 newId \<noteq> [] then Some (defaultToNewId x2 newId) else None)]\<rparr>)"
  using assms by (simp add: prepareUserData_def Let_def)



lemma usersStage_addMerged [simp]: "usersStage (addMerged k s st) = usersStage st"
  by (simp add: addMerged_def)

lemma prepareUserData_rename:
  assumes adm: "admissible \<rho> (insert newId (state_ids st))"
  shows "prepareUserData (rename_state \<rho> st) item (\<rho> newId) =
     (map_option \<rho> (fst (prepareUserData st item newId)),
      rename_state \<rho> (snd (prepareUserData st item newId)))"
proof (cases "parsed item")
  case False
  then show ?thesis by (simp add: prepareUserData_def)
next
  case True
  obtain x1 s1 where 1: "checkEmail st item newId = (x1, s1)" by (cases "checkEmail st item newId")
  obtain x2 s2 where 2: "checkPhone x1 s1 item newId = (x2, s2)" by (cases "checkPhone x1 s1 item newId")
  note ids = check_ids [OF 1 2]
  have r1: "checkEmail (rename_state \<rho> st) item (\<rho> newId) = (map_option \<rho> x1, rename_state \<rho> s1)"
    using checkEmail_rename [of \<rho> st item newId] by (simp add: 1)
  have r2: "checkPhone (map_option \<rho> x1) (rename_state \<rho> s1) item (\<rho> newId) =
      (map_option \<rho> x2, rename_state \<rho> s2)"
    using checkPhone_rename [of \<rho> x1 s1 item newId] by (simp add: 2)
  define w where "w = defaultToNewId x2 newId"
  have x2: "set_option x2 \<subseteq> insert newId (state_ids st)" using ids(1) by blast
  have w: "defaultToNewId (map_option \<rho> x2) (\<rho> newId) = \<rho> w"
    unfolding w_def using adm x2 by (rule defaultToNewId_rename)
  have win: "w \<in> insert newId (state_ids st)"
    unfolding w_def using defaultToNewId_in [of x2 newId] x2 by blast
  with adm have wne: "(\<rho> w = []) = (w = [])" unfolding admissible_def by blast
  have "fst ` set (mergedUserMap s2) \<subseteq> state_ids st" unfolding ids(2) state_ids_def by blast
  with win have "insert w (fst ` set (mergedUserMap s2)) \<subseteq> insert newId (state_ids st)" by blast
  moreover from adm have "inj_on \<rho> (insert newId (state_ids st))" by (simp add: admissible_def)
  ultimately have "inj_on \<rho> (insert w (fst ` set (mergedUserMap s2)))" by (rule inj_on_subset [rotated])
  then have am: "addMerged (\<rho> w) (sourceId item) (rename_state \<rho> s2) =
      rename_state \<rho> (addMerged w (sourceId item) s2)"
    by (rule addMerged_rename)
  have L: "prepareUserData (rename_state \<rho> st) item (\<rho> newId) =
     (Some (\<rho> w),
      (if w \<noteq> [] then rename_state \<rho> (addMerged w (sourceId item) s2) else rename_state \<rho> s2)
        \<lparr>usersStage := map (apsnd (map_option \<rho>)) (usersStage s2)
             @ [(item, if w \<noteq> [] then Some (\<rho> w) else None)]\<rparr>)"
    unfolding prepareUserData_parsed [OF True r1 r2] w wne am [symmetric] by simp
  have R: "prepareUserData st item newId =
     (Some w,
      (if w \<noteq> [] then addMerged w (sourceId item) s2 else s2)
        \<lparr>usersStage := usersStage s2 @ [(item, if w \<noteq> [] then Some w else None)]\<rparr>)"
    unfolding prepareUserData_parsed [OF True 1 2] w_def [symmetric] by simp
  show ?thesis unfolding L R by (simp add: rename_state_def)
qed



lemma prepareUserData_ids:
  assumes "prepareUserData st item newId = (r, st')"
  shows "state_ids st' \<subseteq> insert newId (state_ids st)"
proof (cases "parsed item")
  case False
  with assms have "st' = st" by (simp add: prepareUserData_def)
  then show ?thesis by blast
next
  case True
  obtain x1 s1 where 1: "checkEmail st item newId = (x1, s1)" by (cases "checkEmail st item newId")
  obtain x2 s2 where 2: "checkPhone x1 s1 item newId = (x2, s2)" by (cases "checkPhone x1 s1 item newId")
  note ids = check_ids [OF 1 2]
  define w where "w = defaultToNewId x2 newId"
  have win: "w \<in> insert newId (state_ids st)"
    unfolding w_def using defaultToNewId_in [of x2 newId] ids(1) by blast
  have m: "fst ` set (mergedUserMap s2) \<subseteq> state_ids st" unfolding ids(2) state_ids_def by blast
  have E: "emailToUserIdMap st' = emailToUserIdMap s2"
    and P: "phoneToUserIdMap st' = phoneToUserIdMap s2"
    and M: "mergedUserMap st' = (if w \<noteq> [] then mergedUserMap (addMerged w (sourceId item) s2)
              else mergedUserMap s2)"
    using assms unfolding prepareUserData_parsed [OF True 1 2] w_def [symmetric]
    by (auto simp: addMerged_def)
  have "fst ` set (mergedUserMap (addMerged w (sourceId item) s2)) \<subseteq> insert w (fst ` set (mergedUserMap s2))"
    unfolding addMerged_def using fst_update_subset [of w _ "mergedUserMap s2"] by simp
  with m win have "fst ` set (mergedUserMap (addMerged w (sourceId item) s2)) \<subseteq> insert newId (state_ids st)"
    by blast
  with m have mm: "fst ` set (mergedUserMap st') \<subseteq> insert newId (state_ids st)"
    unfolding M by (cases "w = []") auto
  have U2: "usersStage st' = usersStage s2 @ [(item, if w \<noteq> [] then Some w else None)]"
    using assms unfolding prepareUserData_parsed [OF True 1 2] w_def [symmetric]
    by (auto simp: addMerged_def)
  have U: "usersStage st' = usersStage st @ [(item, if w \<noteq> [] then Some w else None)]"
    using U2 ids(5) by simp
  have old: "{i. \<exists>r. (r, Some i) \<in> set (usersStage st)} \<subseteq> state_ids st"
    unfolding state_ids_def by blast
  have uu: "{i. \<exists>r. (r, Some i) \<in> set (usersStage st')} \<subseteq> insert newId (state_ids st)"
  proof
    fix i assume "i \<in> {i. \<exists>r. (r, Some i) \<in> set (usersStage st')}"
    then obtain r where "(r, Some i) \<in> set (usersStage st')" by blast
    then have "(r, Some i) \<in> set (usersStage st) \<or> i = w"
      unfolding U by (auto split: if_splits)
    then show "i \<in> insert newId (state_ids st)"
    proof
      assume "(r, Some i) \<in> set (usersStage st)"
      with old show ?thesis by blast
    next
      assume "i = w"
      with win show ?thesis by simp
    qed
  qed
  have "state_ids st' =
      snd ` set (emailToUserIdMap s2) \<union> snd ` set (phoneToUserIdMap s2) \<union>
      fst ` set (mergedUserMap st') \<union> {i. \<exists>r. (r, Some i) \<in> set (usersStage st')}"
    unfolding state_ids_def E P ..
  also have "\<dots> \<subseteq> insert newId (state_ids st)"
    by (intro Un_least ids(3) ids(4) mm uu)
  finally show ?thesis .
qed

lemma dedupAll_rename:
  assumes "admissible \<rho> (state_ids st \<union> snd ` set items)"
  shows "dedupAll (rename_state \<rho> st) (map (apsnd \<rho>) items) =
     (fst (dedupAll st items), rename_state \<rho> (snd (dedupAll st items)))"
  using assms
proof (induction items arbitrary: st)
  case Nil
  then show ?case by simp
next
  case (Cons x items)
  obtain item newId where x: "x = (item, newId)" by (cases x)
  obtain r1 st1 where p: "prepareUserData st item newId = (r1, st1)"
    by (cases "prepareUserData st item newId")
  have "insert newId (state_ids st) \<subseteq> state_ids st \<union> snd ` set (x # items)"
    unfolding x by auto
  with Cons.prems have a1: "admissible \<rho> (insert newId (state_ids st))"
    by (rule admissible_mono)
  have p': "prepareUserData (rename_state \<rho> st) item (\<rho> newId) = (map_option \<rho> r1, rename_state \<rho> st1)"
    using prepareUserData_rename [OF a1, of item] by (simp add: p)
  show ?case
  proof (cases r1)
    case None
    show ?thesis unfolding x by (simp add: p p' None)
  next
    case (Some existingId)
    have "state_ids st1 \<subseteq> insert newId (state_ids st)" using p by (rule prepareUserData_ids)
    then have "state_ids st1 \<union> snd ` set items \<subseteq> state_ids st \<union> snd ` set (x # items)"
      unfolding x by auto
    with Cons.prems have "admissible \<rho> (state_ids st1 \<union> snd ` set items)"
      by (rule admissible_mono)
    from Cons.IH [OF this] show ?thesis unfolding x by (simp add: p p' Some)
  qed
qed

lemma map_apsnd_id: "(\<forall>x \<in> snd ` set al. f x = x) \<Longrightarrow> map (apsnd f) al = al"
  by (induction al) auto

lemma map_apfst_id: "(\<forall>x \<in> fst ` set al. f x = x) \<Longrightarrow> map (apfst f) al = al"
  by (induction al) auto

lemma map_stage_id:
  "(\<forall>i r. (r, Some i) \<in> set U \<longrightarrow> f i = i) \<Longrightarrow> map (apsnd (map_option f)) U = U"
proof (induction U)
  case Nil
  then show ?case by simp
next
  case (Cons x U)
  obtain r o' where x: "x = (r, o')" by (cases x)
  from Cons.prems x have "map_option f o' = o'" by (cases o') auto
  moreover from Cons.prems have "map (apsnd (map_option f)) U = U" by (intro Cons.IH) auto
  ultimately show ?case using x by simp
qed

lemma rename_state_fixed:
  assumes "\<forall>x \<in> state_ids st. \<rho> x = x"
  shows "rename_state \<rho> st = st"
proof -
  have "map (apsnd (map_option \<rho>)) (usersStage st) = usersStage st"
    using assms(1) by (intro map_stage_id) (auto simp: state_ids_def)
  moreover
  have "map (apsnd \<rho>) (emailToUserIdMap st) = emailToUserIdMap st"
    using assms(1) by (intro map_apsnd_id) (simp add: state_ids_def)
  moreover have "map (apsnd \<rho>) (phoneToUserIdMap st) = phoneToUserIdMap st"
    using assms(1) by (intro map_apsnd_id) (simp add: state_ids_def)
  moreover have "map (apfst \<rho>) (mergedUserMap st) = mergedUserMap st"
    using assms(1) by (intro map_apfst_id) (simp add: state_ids_def)
  ultimately show ?thesis by (simp add: rename_state_def)
qed


text \<open>
  C5.  The merged user map is a function of the input order and of the identifiers that
  \<open>ID.unique()\<close> generated.  Two runs from the same state on the same records, the second
  with the generated identifiers renamed (injectively, leaving the identifiers of the
  initial state alone), end the same way, and the second table is the first with its
  keys renamed: the same buckets of source identifiers in the same order.  With the same
  generated identifiers the renaming is the identity and the tables are equal.
\<close>

theorem mergedUserMap_up_to_renaming:
  assumes "admissible \<rho> (state_ids st \<union> snd ` set items)"
    and "\<forall>x \<in> state_ids st. \<rho> x = x"
  shows "fst (dedupAll st (map (apsnd \<rho>) items)) = fst (dedupAll st items) \<and>
     mergedUserMap (snd (dedupAll st (map (apsnd \<rho>) items))) =
       map (apfst \<rho>) (mergedUserMap (snd (dedupAll st items))) \<and>
     map snd (mergedUserMap (snd (dedupAll st (map (apsnd \<rho>) items)))) =
       map snd (mergedUserMap (snd (dedupAll st items)))"
proof -
  have "dedupAll st (map (apsnd \<rho>) items) =
      (fst (dedupAll st items), rename_state \<rho> (snd (dedupAll st items)))"
    using dedupAll_rename [OF assms(1)] rename_state_fixed [OF assms(2)] by simp
  then show ?thesis by (simp add: comp_def)
qed

theorem mergedUserMap_up_to_renaming_witness:
  "mergedUserMap (snd (dedupAll st_known [(rec_a, ''u1''), (rec_b, ''u2'')])) =
     [(''u1'', [''42'']), (''u2'', [''42''])] \<and>
   mergedUserMap (snd (dedupAll st_known [(rec_a, ''v1''), (rec_b, ''v2'')])) =
     [(''v1'', [''42'']), (''v2'', [''42''])]"
proof -
  let ?items = "[(rec_a, ''u1''), (rec_b, ''u2'')]"
  have ids: "state_ids st_known \<union> snd ` set ?items = {''u0'', ''u1'', ''u2''}"
    by (auto simp: state_ids_def st_known_def)
  have a: "admissible rename_example (state_ids st_known \<union> snd ` set ?items)"
    unfolding ids by (simp add: admissible_def rename_example_def)
  have f: "\<forall>x \<in> state_ids st_known. rename_example x = x"
    by (simp add: state_ids_def st_known_def rename_example_def)
  have m: "mergedUserMap (snd (dedupAll st_known ?items)) = [(''u1'', [''42'']), (''u2'', [''42''])]"
    by (simp add: dedup_eval st_known_def rec_a_def rec_b_def)
  have r: "map (apsnd rename_example) ?items = [(rec_a, ''v1''), (rec_b, ''v2'')]"
    by (simp add: rename_example_def)
  from mergedUserMap_up_to_renaming [OF a f] m show ?thesis
    unfolding r by (simp add: rename_example_def)
qed

text \<open>
  The same record processed with two different generated identifiers gives two
  different merged user maps.
\<close>

theorem mergedUserMap_depends_on_generated_id:
  "mergedUserMap (snd (dedupAll empty_dedup [(rec_a, ''u1'')])) = [(''u1'', [''42''])] \<and>
   mergedUserMap (snd (dedupAll empty_dedup [(rec_a, ''v1'')])) = [(''v1'', [''42''])] \<and>
   mergedUserMap (snd (dedupAll empty_dedup [(rec_a, ''u1'')])) \<noteq>
   mergedUserMap (snd (dedupAll empty_dedup [(rec_a, ''v1'')]))"
  by (simp add: dedup_eval rec_a_def)


section \<open>Properties of the order of the passes\<close>


lemma emits_skip: "emits (skip ev) (\<lambda>r new. r = Inr () \<and> new = [ev])"
  by (auto simp: emits_def skip_def split: prod.splits)

lemma emits_return: "emits (\<lambda>st. (Inr (), st)) (\<lambda>r new. r = Inr () \<and> new = [])"
  by (auto simp: emits_def)

lemma emits_weaken:
  assumes "emits f P" and "\<And>r new. P r new \<Longrightarrow> Q r new"
  shows "emits f Q"
  using assms unfolding emits_def by blast







lemma prep_skip:
  "emits (skip (EvUpdateSkipped c d)) (prep_events [(c, d)])"
  by (rule emits_weaken [OF emits_skip]) (auto simp: prep_events_def)























section \<open>Properties of the create pass\<close>

lemma forEachE_invariant:
  assumes step: "\<And>x st r st'. P st \<Longrightarrow> f x st = (r, st') \<Longrightarrow> P st'"
  shows "P st \<Longrightarrow> forEachE f xs st = (r, st') \<Longrightarrow> P st'"
proof (induction xs arbitrary: st)
  case Nil
  then show ?case by simp
next
  case (Cons x xs)
  obtain r1 st1 where f1: "f x st = (r1, st1)" by (cases "f x st")
  from step [OF Cons.prems(1) f1] have p1: "P st1" .
  show ?case
  proof (cases r1)
    case (Inl e)
    with Cons.prems(2) f1 p1 show ?thesis by (simp add: andThen_def)
  next
    case (Inr u)
    with Cons.prems(2) f1 have "forEachE f xs st1 = (r, st')" by (simp add: andThen_def)
    from Cons.IH [OF p1 this] show ?thesis .
  qed
qed

lemma tableOf_simps [simp]:
  "tableOf (st\<lparr>store := h\<rparr>) key = tableOf st key"
  "tableOf (st\<lparr>draws := d\<rparr>) key = tableOf st key"
  "tableOf (st\<lparr>errorLog := l\<rparr>) key = tableOf st key"
  "tableOf (st\<lparr>importMap := m\<rparr>) key = tableOf st key"
  "tableOf (st\<lparr>oldIdToNewIdPerCollectionMap := AList.update key t (oldIdToNewIdPerCollectionMap st)\<rparr>) key = t"
  by (simp_all add: tableOf_def update_conv')

text \<open>The entries of a table that one item leaves behind.\<close>

lemma registerAndStage_table:
  assumes "registerAndStage ext depth collection importDef item itemIdNew currentData context0
             transformedData st = (r, st')"
  shows "tableOf st' (getCollectionKey (collName collection)) =
           tableOf st (getCollectionKey (collName collection)) \<or>
         (\<exists>oldKey. map_of (tableOf st (getCollectionKey (collName collection))) oldKey = None \<and>
            tableOf st' (getCollectionKey (collName collection)) =
              AList.update oldKey itemIdNew (tableOf st (getCollectionKey (collName collection))))"
proof -
  let ?key = "getCollectionKey (collName collection)"
  have rest: "tableOf st2 ?key = tableOf st1 ?key"
    if "(case ownEntries (store st1) context0 of
                Inl e \<Rightarrow> (Inl e, st1)
              | Inr contextProps \<Rightarrow>
             (case ownEntries (store st1) transformedData of
                Inl e \<Rightarrow> (Inl e, st1)
              | Inr transformedProps \<Rightarrow>
             (case alloc (store st1) (JObject (spreadOnto contextProps transformedProps)) of
                (ctx, h) \<Rightarrow>
             (let st2 = st1\<lparr>store := h\<rparr>; contextNew = JRef ctx
              in case validateItem ext h transformedData (attributeMappings importDef) contextNew of
                   Inl e \<Rightarrow> (Inl e, st2)
                 | Inr isValid \<Rightarrow>
                     if \<not> isValid then (Inr (), st2)
                     else
                       (case getAttributeMappingsWithActions ext h
                               (attributeMappings importDef) contextNew transformedData of
                          Inl e \<Rightarrow> (Inl e, st2)
                        | Inr mappingsWithActions \<Rightarrow>
                            (let newImportDef =
                                   importDef\<lparr>attributeMappings := mappingsWithActions\<rparr>
                             in case currentData of
                                  Some cd \<Rightarrow>
                                    (Inr (),
                                     st2\<lparr>importMap :=
                                           AList.update ?key
                                             (cd\<lparr>stageData := stageData cd @
                                                   [\<lparr>rawData = item, itemContext = contextNew,
                                                     finalData = transformedData,
                                                     recordDef = Some newImportDef\<rparr>]\<rparr>)
                                             (importMap st2)\<rparr>)
                                | None \<Rightarrow>
                                    (Inr (),
                                     st2\<lparr>errorLog := errorLog st2 @
                                           [NoDataForCollection (collName collection)]\<rparr>))))))) = (r, st2)"
    for st1 st2 :: "'a loader"
    using that
    by (auto simp: Let_def alloc_def split: sum.splits option.splits if_splits)
  show ?thesis
  proof (cases "primaryKeyField importDef \<noteq> []")
    case False
    with assms rest [of st st'] show ?thesis
      by (simp add: registerAndStage_def Let_def)
  next
    case True
    show ?thesis
    proof (cases "getProp (store st) item (primaryKeyField importDef)")
      case (Inl e)
      with assms True show ?thesis by (simp add: registerAndStage_def Let_def)
    next
      case (Inr oldId)
      note gp = this
      show ?thesis
      proof (cases "js_toString depth [] (store st) oldId")
        case (Inl e)
        with assms True gp show ?thesis by (simp add: registerAndStage_def Let_def)
      next
        case (Inr oldKey)
        show ?thesis
        proof (cases "map_of (tableOf st ?key) oldKey")
          case (Some v)
          with assms True gp Inr show ?thesis by (auto simp: registerAndStage_def Let_def)
        next
          case None
          let ?st1 = "st\<lparr>oldIdToNewIdPerCollectionMap :=
                                 AList.update ?key (AList.update oldKey itemIdNew (tableOf st ?key))
                                   (oldIdToNewIdPerCollectionMap st)\<rparr>"
          from assms True gp Inr None have "tableOf st' ?key = tableOf ?st1 ?key"
            by (intro rest) (simp add: registerAndStage_def Let_def)
          with None show ?thesis by auto
        qed
      qed
    qed
  qed
qed

lemma table_entry_kept:
  assumes "map_of t k = Some v"
    and "t' = t \<or> (\<exists>oldKey. map_of t oldKey = None \<and> t' = AList.update oldKey newId t)"
  shows "map_of t' k = Some v"
  using assms by (auto simp: update_conv')

lemma createItem_cases:
  assumes "createItem ext depth db collection importDef item st = (r, st')"
  shows "tableOf st' (getCollectionKey (collName collection)) =
           tableOf st (getCollectionKey (collName collection)) \<or>
         (\<exists>itemIdNew rest currentData context0 transformedData h'.
            registerAndStage ext depth collection importDef item itemIdNew currentData context0
              transformedData (st\<lparr>draws := rest, store := h'\<rparr>) = (r, st'))"
proof (cases "getTrueUniqueId (oldIdToNewIdPerCollectionMap st)
                (getCollectionKey (collName collection)) (draws st)")
  case None
  with assms have "st' = st" by (simp add: createItem_def Let_def)
  then show ?thesis by simp
next
  case (Some p)
  obtain itemIdNew rest where p: "p = (itemIdNew, rest)" by (cases p)
  obtain rc h where cc: "createContext (store st) db collection item itemIdNew = (rc, h)"
    by (cases "createContext (store st) db collection item itemIdNew")
  show ?thesis
  proof (cases rc)
    case (Inl e)
    with assms Some p cc have "st' = st\<lparr>draws := rest, store := h\<rparr>"
      by (simp add: createItem_def Let_def)
    then show ?thesis by simp
  next
    case (Inr context0)
    note rc = this
    obtain rt h' where td: "transformData ext h item (attributeMappings importDef) = (rt, h')"
      by (cases "transformData ext h item (attributeMappings importDef)")
    show ?thesis
    proof (cases rt)
      case (Inl e)
      with assms Some p cc rc td have "st' = st\<lparr>draws := rest, store := h'\<rparr>"
        by (simp add: createItem_def Let_def)
      then show ?thesis by simp
    next
      case (Inr transformedData)
      with assms(1) Some p cc rc td
      have "registerAndStage ext depth collection importDef item itemIdNew
              (map_of (importMap st) (getCollectionKey (collName collection)))
              context0 transformedData (st\<lparr>draws := rest, store := h'\<rparr>) = (r, st')"
        by (simp add: createItem_def Let_def)
      then show ?thesis by blast
    qed
  qed
qed

lemma createItem_entry_kept:
  assumes c: "createItem ext depth db collection importDef item st = (r, st')"
    and k: "map_of (tableOf st (getCollectionKey (collName collection))) k = Some v"
  shows "map_of (tableOf st' (getCollectionKey (collName collection))) k = Some v"
proof -
  let ?key = "getCollectionKey (collName collection)"
  from createItem_cases [OF c] show ?thesis
  proof
    assume "tableOf st' ?key = tableOf st ?key"
    with k show ?thesis by simp
  next
    assume "\<exists>itemIdNew rest currentData context0 transformedData h'.
            registerAndStage ext depth collection importDef item itemIdNew currentData context0
              transformedData (st\<lparr>draws := rest, store := h'\<rparr>) = (r, st')"
    then obtain itemIdNew rest currentData context0 transformedData h' where
      "registerAndStage ext depth collection importDef item itemIdNew currentData context0
              transformedData (st\<lparr>draws := rest, store := h'\<rparr>) = (r, st')" by blast
    from registerAndStage_table [OF this]
    have "tableOf st' ?key = tableOf st ?key \<or>
         (\<exists>oldKey. map_of (tableOf st ?key) oldKey = None \<and>
            tableOf st' ?key = AList.update oldKey itemIdNew (tableOf st ?key))"
      by simp
    with k show ?thesis by (rule table_entry_kept)
  qed
qed

lemma prepareCreateData_entry_kept:
  assumes "prepareCreateData ext depth db collection importDef rawItems st = (r, st')"
    and "map_of (tableOf st (getCollectionKey (collName collection))) k = Some v"
  shows "map_of (tableOf st' (getCollectionKey (collName collection))) k = Some v"
proof (cases "truthy_str (map_of (collectionImportOperations st) (getCollectionKey (collName collection)))")
  case False
  with assms show ?thesis by (auto simp: prepareCreateData_def Let_def)
next
  case True
  let ?key = "getCollectionKey (collName collection)"
  let ?st0 = "st\<lparr>oldIdToNewIdPerCollectionMap :=
                      (case map_of (oldIdToNewIdPerCollectionMap st) ?key of
                         Some m \<Rightarrow> oldIdToNewIdPerCollectionMap st
                       | None \<Rightarrow> AList.update ?key [] (oldIdToNewIdPerCollectionMap st))\<rparr>"
  have t0: "tableOf ?st0 ?key = tableOf st ?key"
    by (cases "map_of (oldIdToNewIdPerCollectionMap st) ?key") (simp_all add: tableOf_def update_conv')
  from assms(1) True have run: "forEachE (createItem ext depth db collection importDef) rawItems ?st0 = (r, st')"
    by (simp add: prepareCreateData_def Let_def)
  have "map_of (tableOf ?st0 ?key) k = Some v" using assms(2) t0 by simp
  then show ?thesis
    using run
    by (rule forEachE_invariant [where P = "\<lambda>s. map_of (tableOf s ?key) k = Some v", rotated])
      (rule createItem_entry_kept)
qed

lemma createItem_duplicate:
  assumes pk: "primaryKeyField importDef \<noteq> []"
    and uid: "getTrueUniqueId (oldIdToNewIdPerCollectionMap st)
               (getCollectionKey (collName collection)) (draws st) = Some (itemIdNew, rest)"
    and cc: "createContext (store st) db collection item itemIdNew = (Inr context0, h1)"
    and td: "transformData ext h1 item (attributeMappings importDef) = (Inr transformedData, h2)"
    and gp: "getProp h2 item (primaryKeyField importDef) = Inr oldId"
    and ts: "js_toString depth [] h2 oldId = Inr oldKey"
    and dup: "map_of (tableOf st (getCollectionKey (collName collection))) oldKey = Some firstId"
  shows "createItem ext depth db collection importDef item st =
     (Inr (),
      st\<lparr>draws := rest, store := h2,
         errorLog := errorLog st @ [DuplicatePrimaryKey (collName collection) oldKey]\<rparr>)"
  using assms by (simp add: createItem_def registerAndStage_def Let_def)

lemma table_exists:
  "map_of (tableOf st key) oldKey = Some firstId \<Longrightarrow>
   \<exists>m. map_of (oldIdToNewIdPerCollectionMap st) key = Some m"
  by (cases "map_of (oldIdToNewIdPerCollectionMap st) key") (simp_all add: tableOf_def)

text \<open>
  C4.  A create pass over a collection whose import definition has a primary-key field.
  When the string of an item's primary-key value is already a key of the collection's ID
  table, the loop body rejects the item: it logs the duplicate as an error and changes
  nothing else but the identifiers drawn and the heap, so no record is staged and no
  table entry is written.  The pass goes on with the next item, as if the rejected item
  had not been in the data.  And whatever a create pass does, an entry of the table keeps
  its target identifier.
\<close>

theorem duplicate_primary_key_rejected:
  assumes pk: "primaryKeyField importDef \<noteq> []"
    and uid: "getTrueUniqueId (oldIdToNewIdPerCollectionMap st)
               (getCollectionKey (collName collection)) (draws st) = Some (itemIdNew, rest)"
    and cc: "createContext (store st) db collection item itemIdNew = (Inr context0, h1)"
    and td: "transformData ext h1 item (attributeMappings importDef) = (Inr transformedData, h2)"
    and gp: "getProp h2 item (primaryKeyField importDef) = Inr oldId"
    and ts: "js_toString depth [] h2 oldId = Inr oldKey"
    and dup: "map_of (tableOf st (getCollectionKey (collName collection))) oldKey = Some firstId"
    and op: "truthy_str (map_of (collectionImportOperations st)
               (getCollectionKey (collName collection)))"
  shows
    "createItem ext depth db collection importDef item st =
       (Inr (),
        st\<lparr>draws := rest, store := h2,
           errorLog := errorLog st @ [DuplicatePrimaryKey (collName collection) oldKey]\<rparr>) \<and>
     prepareCreateData ext depth db collection importDef (item # moreItems) st =
       prepareCreateData ext depth db collection importDef moreItems
         (st\<lparr>draws := rest, store := h2,
            errorLog := errorLog st @ [DuplicatePrimaryKey (collName collection) oldKey]\<rparr>) \<and>
     map_of (tableOf (snd (prepareCreateData ext depth db collection importDef rawItems st))
               (getCollectionKey (collName collection))) oldKey = Some firstId"
proof (intro conjI)
  let ?key = "getCollectionKey (collName collection)"
  let ?st' = "st\<lparr>draws := rest, store := h2,
           errorLog := errorLog st @ [DuplicatePrimaryKey (collName collection) oldKey]\<rparr>"
  show item: "createItem ext depth db collection importDef item st = (Inr (), ?st')"
    using pk uid cc td gp ts dup by (rule createItem_duplicate)
  from table_exists [OF dup] obtain m where m: "map_of (oldIdToNewIdPerCollectionMap st) ?key = Some m" ..
  have st0: "st\<lparr>oldIdToNewIdPerCollectionMap := oldIdToNewIdPerCollectionMap st\<rparr> = st" by simp
  show "prepareCreateData ext depth db collection importDef (item # moreItems) st =
       prepareCreateData ext depth db collection importDef moreItems ?st'"
    using op m item by (simp add: prepareCreateData_def Let_def andThen_def st0)
  show "map_of (tableOf (snd (prepareCreateData ext depth db collection importDef rawItems st))
               ?key) oldKey = Some firstId"
    using prepareCreateData_entry_kept [OF _ dup, of ext depth db importDef rawItems
        "fst (prepareCreateData ext depth db collection importDef rawItems st)"
        "snd (prepareCreateData ext depth db collection importDef rawItems st)"]
    by simp
qed

lemma items_key: "getCollectionKey (collName items_collection) = ''items''"
  by (simp add: items_collection_def getCollectionKey_def toLowerCase_def toLowerCase_char_def)

lemmas create_eval = prepareCreateData_def createItem_def registerAndStage_def createContext_def
  spreadOnto_def andThen_def tableOf_def checkMapValuesForId_def truthy_str_def
  ownEntries_def getProp_def notOwn_def object_prototype_names_def lookup_def heap_get_def
  alloc_def show_int_def Let_def

lemma scenario_two:
  "prepareCreateData plain_externals 3 main_db items_collection items_def [JRef 0, JRef 1]
     items_start = (Inr (), items_after_second)"
  by (simp add: create_eval items_key plain_externals_def items_start_def items_after_first_def
      items_after_second_def items_context_def main_db_def numeral_3_eq_3 show_nat.simps)
    (simp add: items_def_def items_collection_def)

theorem duplicate_primary_key_rejected_witness:
  "createItem plain_externals 3 main_db items_collection items_def (JRef 1) items_after_first =
     (Inr (), items_after_second) \<and>
   prepareCreateData plain_externals 3 main_db items_collection items_def [JRef 0, JRef 1]
     items_start = (Inr (), items_after_second) \<and>
   map (\<lambda>dat. rawData dat) (stageData (the (map_of (importMap items_after_second) ''items''))) =
     [JRef 0] \<and>
   tableOf items_after_second ''items'' = [(''42'', ''id1'')] \<and>
   errorLog items_after_second = [DuplicatePrimaryKey ''Items'' ''42'']"
proof -
  let ?h = "store items_after_first @ [JObject [], items_context ''id2'' (JNum 42) 2 5]"
  have pk: "primaryKeyField items_def \<noteq> []" by (simp add: items_def_def)
  have uid: "getTrueUniqueId (oldIdToNewIdPerCollectionMap items_after_first)
      (getCollectionKey (collName items_collection)) (draws items_after_first) =
      Some (''id2'', [''id3''])"
    by (simp add: items_key items_after_first_def checkMapValuesForId_def truthy_str_def)
  have cc: "createContext (store items_after_first) main_db items_collection (JRef 1) ''id2'' =
      (Inr (JRef 6), ?h)"
    by (simp add: createContext_def items_after_first_def items_context_def ownEntries_def
        heap_get_def alloc_def spreadOnto_def main_db_def items_collection_def)
  have td: "transformData plain_externals ?h (JRef 1) (attributeMappings items_def) =
      (Inr (JRef 1), ?h)"
    by (simp add: plain_externals_def)
  have gp: "getProp ?h (JRef 1) (primaryKeyField items_def) = Inr (JNum 42)"
    by (simp add: items_after_first_def items_def_def getProp_def heap_get_def)
  have ts: "js_toString 3 [] ?h (JNum 42) = Inr ''42''"
    by (simp add: show_int_def show_nat.simps)
  have dup: "map_of (tableOf items_after_first (getCollectionKey (collName items_collection)))
      ''42'' = Some ''id1''"
    by (simp add: items_key tableOf_def items_after_first_def)
  have op: "truthy_str (map_of (collectionImportOperations items_after_first)
      (getCollectionKey (collName items_collection)))"
    by (simp add: items_key items_after_first_def truthy_str_def)
  have aft: "items_after_first\<lparr>draws := [''id3''], store := ?h,
      errorLog := errorLog items_after_first @
        [DuplicatePrimaryKey (collName items_collection) ''42'']\<rparr> = items_after_second"
    by (simp add: items_after_second_def items_after_first_def items_collection_def)
  from duplicate_primary_key_rejected [OF pk uid cc td gp ts dup op, of "[]" "[]"]
  have 1: "createItem plain_externals 3 main_db items_collection items_def (JRef 1)
      items_after_first = (Inr (), items_after_second)"
    by (simp add: aft)
  have 3: "map (\<lambda>dat. rawData dat)
      (stageData (the (map_of (importMap items_after_second) ''items''))) = [JRef 0]"
    "tableOf items_after_second ''items'' = [(''42'', ''id1'')]"
    "errorLog items_after_second = [DuplicatePrimaryKey ''Items'' ''42'']"
    by (simp_all add: items_after_second_def items_after_first_def tableOf_def)
  from 1 scenario_two 3 show ?thesis by simp
qed

section \<open>Properties of the general lookup\<close>

lemmas lookup_eval = updateOldReferencesForNew_def resolveIdMapping_def isMatch_def
  fieldToSetKey_def lodash_isEmpty_def setProp_def getProp_def notOwn_def
  object_prototype_names_def heap_get_def kindOf_def alloc_def andThen_def
  getCollectionKey_def toLowerCase_def toLowerCase_char_def show_int_def Let_def

text \<open>
  C2.  The general lookup on two staged records: one of collection \<open>A\<close> whose context
  has \<open>origId = 7\<close>, and one of collection \<open>B\<close> whose context has \<open>aRef = 7\<close>, with the
  mapping of \<open>aRef\<close> to \<open>origId\<close> of \<open>A\<close>.  When both values are the number 7, the record
  of \<open>A\<close> matches by the comparison of the strings, and yet the lookup returns with the
  state as it was: the final data of the record of \<open>B\<close> is not changed and nothing is
  logged, because \<open>_.isEmpty\<close> holds of every number and the mapping is passed over.
  When both values are the string \<open>"7"\<close>, the lookup writes the final data of the record
  of \<open>A\<close> into the field \<open>aRef\<close> of the final data of the record of \<open>B\<close>.
\<close>

theorem numeric_reference_not_resolved:
  "isMatch 3 (store (ref_state (JNum 7))) ref_mapping (JNum 7) record_a = Inr True \<and>
   updateOldReferencesForNew 3 ref_config (ref_state (JNum 7)) = (Inr (), ref_state (JNum 7)) \<and>
   heap_get (store (ref_state (JNum 7))) 2 = Some (JObject [(''aRef'', JNum 7)]) \<and>
   errorLog (ref_state (JNum 7)) = [] \<and>
   updateOldReferencesForNew 3 ref_config (ref_state (JStr ''7'')) =
     (Inr (),
      (ref_state (JStr ''7''))
        \<lparr>store := (store (ref_state (JStr ''7'')))[2 := JObject [(''aRef'', JRef 0)]]\<rparr>)"
  by (simp add: lookup_eval ref_config_def ref_state_def ref_mapping_def record_a_def
      record_b_def numeral_3_eq_3 show_nat.simps)

end
